theory Spec2Isabelle
  imports Main
begin

section \<open>Tiles, status codes and machine integers\<close>

text \<open>
  The dungeon map of \<^verbatim>\<open>logic.cpp\<close> is a \<^verbatim>\<open>char**\<close>: every cell holds one character, and
  the code compares and stores the tile constants \<^verbatim>\<open>TILE_OPEN\<close>, \<^verbatim>\<open>TILE_PLAYER\<close> and so on.
\<close>

text \<open>
  Modelled from the spec: the header \<^verbatim>\<open>logic.h\<close>, which gives the \<^verbatim>\<open>TILE_*\<close> constants their
  values, is missing. The spec names the tiles
  \<open>{Open, Pillar, Door, Exit, Treasure, Amulet, Monster, Player}\<close> and says that each is "a
  distinct fixed character". The characters below are one such choice. The proofs use
  only that the eight characters are pairwise distinct; the concrete levels of the
  examples also use that none of them is white space.
\<close>

definition TILE_OPEN :: char where "TILE_OPEN = CHR ''-''"
definition TILE_PLAYER :: char where "TILE_PLAYER = CHR ''o''"
definition TILE_TREASURE :: char where "TILE_TREASURE = CHR ''$''"
definition TILE_AMULET :: char where "TILE_AMULET = CHR ''@''"
definition TILE_MONSTER :: char where "TILE_MONSTER = CHR ''M''"
definition TILE_PILLAR :: char where "TILE_PILLAR = CHR ''+''"
definition TILE_DOOR :: char where "TILE_DOOR = CHR ''?''"
definition TILE_EXIT :: char where "TILE_EXIT = CHR ''!''"

text \<open>
  The status flags, with the values that the comment at the head of \<^verbatim>\<open>doPlayerMove\<close>
  lists (lines 269 to 274 of \<^verbatim>\<open>logic.cpp\<close>).
\<close>

definition STATUS_STAY :: int where "STATUS_STAY = 0"
definition STATUS_MOVE :: int where "STATUS_MOVE = 1"
definition STATUS_TREASURE :: int where "STATUS_TREASURE = 2"
definition STATUS_AMULET :: int where "STATUS_AMULET = 3"
definition STATUS_LEAVE :: int where "STATUS_LEAVE = 4"
definition STATUS_ESCAPE :: int where "STATUS_ESCAPE = 5"

text \<open>
  \<^verbatim>\<open>int\<close> is a 32-bit signed integer. It is modelled by \<^typ>\<open>int\<close>. Where an operation of
  the source can leave the 32-bit range on arguments that pass the function's own checks
  (the product of the dimensions in \<^verbatim>\<open>loadLevel\<close>, their doubling in \<^verbatim>\<open>resizeMap\<close>, the
  treasure counter in \<^verbatim>\<open>doPlayerMove\<close>), the model returns the fault \<open>SignedOverflow\<close>
  instead of a value: C++ leaves signed overflow undefined. The index arithmetic of the
  loops stays inside the dimensions of a well-formed map and is computed exactly.
\<close>

definition INT32_MAX :: int where "INT32_MAX = 2147483647"
definition INT32_MIN :: int where "INT32_MIN = - 2147483648"

definition int32 :: "int \<Rightarrow> bool" where
  "int32 n = (INT32_MIN \<le> n \<and> n \<le> INT32_MAX)"

text \<open>
  Undefined behaviour of the C++ program is a value of the model: an access outside an
  array, a dereference of \<^verbatim>\<open>nullptr\<close>, an access to or a second release of a block that
  was released, and signed overflow. A function that can run into one of them returns
  \<open>fault + 'a\<close>, with \<open>Inl\<close> for the fault.
\<close>

datatype fault = OutOfBounds | NullPointer | Dangling | SignedOverflow

section \<open>The grid and the player\<close>

text \<open>
  A map with \<open>maxRow\<close> rows and \<open>maxCol\<close> columns is a list of rows, each a list of
  characters. The dimensions travel beside the map, as in the source, where they are
  separate \<^verbatim>\<open>int\<close> parameters.
\<close>

type_synonym grid = "char list list"

text \<open>
  Modelled from the spec: the declaration of \<^verbatim>\<open>Player\<close> in \<^verbatim>\<open>logic.h\<close> is missing. The spec
  gives \<open>Player: {row, col, treasureCount}\<close>; the fields are named as the source uses them
  (\<^verbatim>\<open>player.row\<close>, \<^verbatim>\<open>player.col\<close>, \<^verbatim>\<open>player.treasure\<close>), all of type \<^verbatim>\<open>int\<close>.
\<close>

record Player =
  row :: int
  col :: int
  treasure :: int

text \<open>\<open>inGrid\<close>: the cell \<open>(r, c)\<close> is inside the storage of the map.\<close>

definition inGrid :: "grid \<Rightarrow> int \<Rightarrow> int \<Rightarrow> bool" where
  "inGrid m r c =
     (0 \<le> r \<and> r < int (length m) \<and> 0 \<le> c \<and> c < int (length (m ! nat r)))"

text \<open>\<open>tileAt m r c\<close> is \<^verbatim>\<open>map[r][c]\<close> for a cell inside the map.\<close>

definition tileAt :: "grid \<Rightarrow> int \<Rightarrow> int \<Rightarrow> char" where
  "tileAt m r c = m ! nat r ! nat c"

text \<open>The read \<^verbatim>\<open>map[r][c]\<close>: undefined outside the storage.\<close>

definition readTile :: "grid \<Rightarrow> int \<Rightarrow> int \<Rightarrow> fault + char" where
  "readTile m r c = (if inGrid m r c then Inr (tileAt m r c) else Inl OutOfBounds)"

text \<open>\<open>setTile m r c v\<close> is the map \<open>m\<close> with \<open>v\<close> stored in the cell \<open>(r, c)\<close>.\<close>

definition setTile :: "grid \<Rightarrow> int \<Rightarrow> int \<Rightarrow> char \<Rightarrow> grid" where
  "setTile m r c v = m[nat r := (m ! nat r)[nat c := v]]"

text \<open>The assignment \<^verbatim>\<open>map[r][c] = v\<close>: undefined outside the storage.\<close>

definition writeTile :: "grid \<Rightarrow> int \<Rightarrow> int \<Rightarrow> char \<Rightarrow> fault + grid" where
  "writeTile m r c v = (if inGrid m r c then Inr (setTile m r c v) else Inl OutOfBounds)"

text \<open>
  A map is well formed for the dimensions \<open>maxRow\<close> and \<open>maxCol\<close> when it has that many
  rows and every row has that many columns.
\<close>

definition wfGrid :: "grid \<Rightarrow> int \<Rightarrow> int \<Rightarrow> bool" where
  "wfGrid m maxRow maxCol =
     (int (length m) = maxRow \<and> list_all (\<lambda>r. int (length r) = maxCol) m)"

text \<open>The number of cells of the map that hold the player tile.\<close>

definition playerCount :: "grid \<Rightarrow> nat" where
  "playerCount m = length (filter (\<lambda>t. t = TILE_PLAYER) (concat m))"

text \<open>
  A valid pair of map and player: the map is well formed, the player's coordinates are
  inside it, the cell at these coordinates holds the player tile and no other cell does.
\<close>

definition validState :: "grid \<Rightarrow> int \<Rightarrow> int \<Rightarrow> Player \<Rightarrow> bool" where
  "validState m maxRow maxCol p =
     (wfGrid m maxRow maxCol \<and>
      0 \<le> row p \<and> row p < maxRow \<and> 0 \<le> col p \<and> col p < maxCol \<and>
      tileAt m (row p) (col p) = TILE_PLAYER \<and> playerCount m = 1)"

section \<open>doPlayerMove\<close>

text \<open>
  The four statements that every moving branch of \<^verbatim>\<open>doPlayerMove\<close> repeats:
  \<^verbatim>\<open>player.row = nextRow; player.col = nextCol; map[nextRow][nextCol] = TILE_PLAYER;
  map[origRow][origCol] = TILE_OPEN;\<close>
\<close>

definition relocate ::
  "grid \<Rightarrow> Player \<Rightarrow> int \<Rightarrow> int \<Rightarrow> int \<Rightarrow> int \<Rightarrow> fault + (grid \<times> Player)" where
  "relocate m player origRow origCol nextRow nextCol =
     (case writeTile m nextRow nextCol TILE_PLAYER of
        Inl f \<Rightarrow> Inl f
      | Inr m1 \<Rightarrow>
          (case writeTile m1 origRow origCol TILE_OPEN of
             Inl f \<Rightarrow> Inl f
           | Inr m2 \<Rightarrow> Inr (m2, player\<lparr>row := nextRow, col := nextCol\<rparr>)))"

text \<open>
  \<^verbatim>\<open>doPlayerMove\<close> (lines 266 to 324). The result is the returned status together with the
  map and the player as the call leaves them.
\<close>

definition doPlayerMove ::
  "grid \<Rightarrow> int \<Rightarrow> int \<Rightarrow> Player \<Rightarrow> int \<Rightarrow> int \<Rightarrow> fault + (int \<times> grid \<times> Player)" where
  "doPlayerMove m maxRow maxCol player nextRow nextCol =
     (let origRow = row player; origCol = col player in
      if nextRow \<ge> maxRow \<or> nextCol \<ge> maxCol then Inr (STATUS_STAY, m, player)
      else if nextRow < 0 \<or> nextCol < 0 then Inr (STATUS_STAY, m, player)
      else
        (case readTile m nextRow nextCol of
           Inl f \<Rightarrow> Inl f
         | Inr t \<Rightarrow>
             if t = TILE_MONSTER \<or> t = TILE_PILLAR then Inr (STATUS_STAY, m, player)
             else if t = TILE_EXIT \<and> treasure player = 0 then Inr (STATUS_STAY, m, player)
             else if t = TILE_EXIT \<and> treasure player \<noteq> 0 then
               (case relocate m player origRow origCol nextRow nextCol of
                  Inl f \<Rightarrow> Inl f
                | Inr (m', p') \<Rightarrow> Inr (STATUS_ESCAPE, m', p'))
             else if t = TILE_DOOR then
               (case relocate m player origRow origCol nextRow nextCol of
                  Inl f \<Rightarrow> Inl f
                | Inr (m', p') \<Rightarrow> Inr (STATUS_LEAVE, m', p'))
             else if t = TILE_TREASURE then
               (if treasure player + 1 > INT32_MAX then Inl SignedOverflow
                else
                  (case relocate m (player\<lparr>treasure := treasure player + 1\<rparr>)
                          origRow origCol nextRow nextCol of
                     Inl f \<Rightarrow> Inl f
                   | Inr (m', p') \<Rightarrow> Inr (STATUS_TREASURE, m', p')))
             else if t = TILE_AMULET then
               (case relocate m player origRow origCol nextRow nextCol of
                  Inl f \<Rightarrow> Inl f
                | Inr (m', p') \<Rightarrow> Inr (STATUS_AMULET, m', p'))
             else if t = TILE_OPEN then
               (case relocate m player origRow origCol nextRow nextCol of
                  Inl f \<Rightarrow> Inl f
                | Inr (m', p') \<Rightarrow> Inr (STATUS_MOVE, m', p'))
             else Inr (0, m, player)))"

section \<open>doMonsterAttack\<close>

text \<open>
  \<^verbatim>\<open>doMonsterAttack\<close> runs four loops, one for each direction, in the order above, below,
  right, left (lines 353, 367, 381 and 395). The loops differ only in the cell they
  examine at step \<open>i\<close> and in the cell next to it on the player's side, so the model has one
  loop with the direction as a parameter: \<open>scanned\<close> is the cell that the loop of that
  direction examines, \<open>closer\<close> the cell it moves the monster to, each with the index
  expressions of the source.
\<close>

datatype dir = Above | Below | Right | Left

fun scanned :: "dir \<Rightarrow> int \<Rightarrow> int \<Rightarrow> int \<Rightarrow> int \<times> int" where
  "scanned Above pRow pCol i = (pRow - i, pCol)"
| "scanned Below pRow pCol i = (pRow + i, pCol)"
| "scanned Right pRow pCol i = (pRow, pCol + i)"
| "scanned Left pRow pCol i = (pRow, pCol - i)"

fun closer :: "dir \<Rightarrow> int \<Rightarrow> int \<Rightarrow> int \<Rightarrow> int \<times> int" where
  "closer Above pRow pCol i = (pRow - i + 1, pCol)"
| "closer Below pRow pCol i = (pRow + i - 1, pCol)"
| "closer Right pRow pCol i = (pRow, pCol + i - 1)"
| "closer Left pRow pCol i = (pRow, pCol - i + 1)"

text \<open>
  One loop \<^verbatim>\<open>for(int i = ...; i <= len; ++i)\<close>, entered with the counter \<open>i\<close>, the map \<open>m\<close>
  and the flag \<open>eaten\<close>. A monster is moved and the loop goes on; a pillar ends the loop
  (\<^verbatim>\<open>break\<close>); any other tile is skipped.
\<close>

function scanRay ::
  "dir \<Rightarrow> int \<Rightarrow> int \<Rightarrow> int \<Rightarrow> int \<Rightarrow> grid \<Rightarrow> bool \<Rightarrow> fault + (grid \<times> bool)" where
  "scanRay d pRow pCol len i m eaten =
     (if i \<le> len then
        (case readTile m (fst (scanned d pRow pCol i)) (snd (scanned d pRow pCol i)) of
           Inl f \<Rightarrow> Inl f
         | Inr t \<Rightarrow>
             if t = TILE_MONSTER then
               (case writeTile m (fst (scanned d pRow pCol i)) (snd (scanned d pRow pCol i))
                       TILE_OPEN of
                  Inl f \<Rightarrow> Inl f
                | Inr m1 \<Rightarrow>
                    (case writeTile m1 (fst (closer d pRow pCol i)) (snd (closer d pRow pCol i))
                            TILE_MONSTER of
                       Inl f \<Rightarrow> Inl f
                     | Inr m2 \<Rightarrow>
                         scanRay d pRow pCol len (i + 1) m2 (if i = 1 then True else eaten)))
             else if t = TILE_PILLAR then Inr (m, eaten)
             else scanRay d pRow pCol len (i + 1) m eaten)
      else Inr (m, eaten))"
  by pat_completeness auto
termination
  by (relation "measure (\<lambda>(d, pRow, pCol, len, i, m, eaten). nat (len + 1 - i))") auto

text \<open>
  \<^verbatim>\<open>doMonsterAttack\<close> (lines 340 to 412). The result is the returned flag together with the
  map as the call leaves it.
\<close>

definition doMonsterAttack :: "grid \<Rightarrow> int \<Rightarrow> int \<Rightarrow> Player \<Rightarrow> fault + (bool \<times> grid)" where
  "doMonsterAttack m maxRow maxCol player =
     (let pRow = row player; pCol = col player;
          eaten = False;
          upLength = pRow;
          downLength = (maxRow - 1) - pRow;
          rightLength = (maxCol - 1) - pCol;
          leftLength = pCol
      in
        case scanRay Above pRow pCol upLength 1 m eaten of
          Inl f \<Rightarrow> Inl f
        | Inr (m1, eaten1) \<Rightarrow>
            (case scanRay Below pRow pCol downLength 1 m1 eaten1 of
               Inl f \<Rightarrow> Inl f
             | Inr (m2, eaten2) \<Rightarrow>
                 (case scanRay Right pRow pCol rightLength 1 m2 eaten2 of
                    Inl f \<Rightarrow> Inl f
                  | Inr (m3, eaten3) \<Rightarrow>
                      (case scanRay Left pRow pCol leftLength 1 m3 eaten3 of
                         Inl f \<Rightarrow> Inl f
                       | Inr (m4, eaten4) \<Rightarrow> Inr (if eaten4 then True else False, m4)))))"

section \<open>Allocation: createMap, deleteMap, resizeMap\<close>

text \<open>
  \<^verbatim>\<open>createMap\<close> allocates a map with \<^verbatim>\<open>new\<close>, \<^verbatim>\<open>deleteMap\<close> releases one, and \<^verbatim>\<open>resizeMap\<close>
  does both. The store is a list of blocks: the address of a block is its index, a block
  that is allocated holds \<open>Some\<close> map, a block that was released holds \<open>None\<close>. A pointer
  \<^verbatim>\<open>char**\<close> is an address or \<^verbatim>\<open>nullptr\<close> (\<open>None\<close>). The rows of a map, which the source
  allocates one by one, are part of the one block of their map. Allocation always
  succeeds in the model (\<^verbatim>\<open>new\<close> throwing \<^verbatim>\<open>std::bad_alloc\<close> is not modelled).
\<close>

type_synonym heap = "grid option list"
type_synonym ptr = "nat option"

text \<open>The contents of the block at address \<open>a\<close>, if it is allocated.\<close>

definition block :: "heap \<Rightarrow> nat \<Rightarrow> grid option" where
  "block h a = (if a < length h then h ! a else None)"

text \<open>
  \<^verbatim>\<open>createMap\<close> (lines 145 to 164). Both dimensions are positive where the source divides,
  so the truncating division of C++ is \<open>div\<close>. The two loops that set every cell to
  \<^verbatim>\<open>TILE_OPEN\<close> are \<open>replicate\<close>. The result is the store and the returned pointer.
\<close>

definition createMap :: "heap \<Rightarrow> int \<Rightarrow> int \<Rightarrow> heap \<times> ptr" where
  "createMap h maxRow maxCol =
     (if maxRow \<le> 0 \<or> maxCol \<le> 0 then (h, None)
      else if maxRow > INT32_MAX div maxCol then (h, None)
      else if maxCol > INT32_MAX div maxRow then (h, None)
      else (h @ [Some (replicate (nat maxRow) (replicate (nat maxCol) TILE_OPEN))],
            Some (length h)))"

text \<open>
  \<^verbatim>\<open>deleteMap\<close> (lines 173 to 182) takes the pointer and the row count by reference: the
  result is the store, the pointer (\<^verbatim>\<open>nullptr\<close>) and the row count (0) as the call leaves
  them. Releasing a block that is not allocated, or more rows than the map has, is
  undefined. (With fewer rows than the map has, the source leaks the other rows; the
  one-block store does not keep track of that.)
\<close>

definition deleteMap :: "heap \<Rightarrow> ptr \<Rightarrow> int \<Rightarrow> fault + (heap \<times> ptr \<times> int)" where
  "deleteMap h mapPtr maxRow =
     (case mapPtr of
        None \<Rightarrow> Inr (h, None, 0)
      | Some a \<Rightarrow>
          (case block h a of
             None \<Rightarrow> Inl Dangling
           | Some g \<Rightarrow>
               if maxRow > int (length g) then Inl OutOfBounds
               else Inr (h[a := None], None, 0)))"

text \<open>
  The four pairs of nested loops of \<^verbatim>\<open>resizeMap\<close> (lines 215, 220, 228 and 236) copy the
  old map into one quarter of the new one each. They differ in the offsets \<open>rowOff\<close> and
  \<open>colOff\<close> added to the indices of the new map (0 or \<^verbatim>\<open>originalRow\<close>, 0 or \<^verbatim>\<open>originalCol\<close>)
  and in \<open>blank\<close>: the first pair of loops only copies, the other three overwrite a copied
  player tile with \<^verbatim>\<open>TILE_OPEN\<close>. \<open>copyCols\<close> is the inner loop, \<open>copyRows\<close> the outer one;
  the loop counters \<^verbatim>\<open>row\<close> and \<^verbatim>\<open>col\<close> are \<open>r\<close> and \<open>c\<close>.
\<close>

function copyCols ::
  "grid \<Rightarrow> grid \<Rightarrow> int \<Rightarrow> int \<Rightarrow> int \<Rightarrow> bool \<Rightarrow> int \<Rightarrow> int \<Rightarrow> fault + grid" where
  "copyCols newMap oldMap originalCol rowOff colOff blank r c =
     (if c < originalCol then
        (case readTile oldMap r c of
           Inl f \<Rightarrow> Inl f
         | Inr t \<Rightarrow>
             (case writeTile newMap (r + rowOff) (c + colOff) t of
                Inl f \<Rightarrow> Inl f
              | Inr n1 \<Rightarrow>
                  if blank \<and> t = TILE_PLAYER then
                    (case writeTile n1 (r + rowOff) (c + colOff) TILE_OPEN of
                       Inl f \<Rightarrow> Inl f
                     | Inr n2 \<Rightarrow>
                         copyCols n2 oldMap originalCol rowOff colOff blank r (c + 1))
                  else copyCols n1 oldMap originalCol rowOff colOff blank r (c + 1)))
      else Inr newMap)"
  by pat_completeness auto
termination
  by (relation "measure (\<lambda>(newMap, oldMap, originalCol, rowOff, colOff, blank, r, c).
        nat (originalCol - c))") auto

function copyRows ::
  "grid \<Rightarrow> grid \<Rightarrow> int \<Rightarrow> int \<Rightarrow> int \<Rightarrow> int \<Rightarrow> bool \<Rightarrow> int \<Rightarrow> fault + grid" where
  "copyRows newMap oldMap originalRow originalCol rowOff colOff blank r =
     (if r < originalRow then
        (case copyCols newMap oldMap originalCol rowOff colOff blank r 0 of
           Inl f \<Rightarrow> Inl f
         | Inr n1 \<Rightarrow> copyRows n1 oldMap originalRow originalCol rowOff colOff blank (r + 1))
      else Inr newMap)"
  by pat_completeness auto
termination
  by (relation "measure (\<lambda>(newMap, oldMap, originalRow, originalCol, rowOff, colOff, blank, r).
        nat (originalRow - r))") auto

text \<open>
  The four copies in the order of the source: top left (plain copy), bottom left, top
  right, bottom right.
\<close>

definition copyAll :: "grid \<Rightarrow> grid \<Rightarrow> int \<Rightarrow> int \<Rightarrow> fault + grid" where
  "copyAll newMap oldMap originalRow originalCol =
     (case copyRows newMap oldMap originalRow originalCol 0 0 False 0 of
        Inl f \<Rightarrow> Inl f
      | Inr n1 \<Rightarrow>
          (case copyRows n1 oldMap originalRow originalCol originalRow 0 True 0 of
             Inl f \<Rightarrow> Inl f
           | Inr n2 \<Rightarrow>
               (case copyRows n2 oldMap originalRow originalCol 0 originalCol True 0 of
                  Inl f \<Rightarrow> Inl f
                | Inr n3 \<Rightarrow>
                    copyRows n3 oldMap originalRow originalCol originalRow originalCol True 0)))"

text \<open>
  \<^verbatim>\<open>resizeMap\<close> (lines 195 to 248) takes the pointer by value and the dimensions by
  reference: the result is the store, the returned pointer and the dimensions as the
  call leaves them. The doubling \<^verbatim>\<open>maxRow *= 2; maxCol *= 2;\<close> is undefined when it leaves the
  32-bit range. The doubled dimensions are positive, so the division is \<open>div\<close>. The loops
  dereference \<^verbatim>\<open>newMap\<close> and \<^verbatim>\<open>map\<close> in their first step (both original dimensions are
  positive there).
\<close>

definition resizeMap :: "heap \<Rightarrow> ptr \<Rightarrow> int \<Rightarrow> int \<Rightarrow> fault + (heap \<times> ptr \<times> int \<times> int)" where
  "resizeMap h mapPtr maxRow maxCol =
     (let originalRow = maxRow; originalCol = maxCol in
      if maxRow \<le> 0 \<or> maxCol \<le> 0 then Inr (h, None, maxRow, maxCol)
      else
        (case mapPtr of
           None \<Rightarrow> Inr (h, None, maxRow, maxCol)
         | Some a \<Rightarrow>
             if \<not> int32 (maxRow * 2) \<or> \<not> int32 (maxCol * 2) then Inl SignedOverflow
             else
               (let maxRow2 = maxRow * 2; maxCol2 = maxCol * 2 in
                if maxRow2 > INT32_MAX div maxCol2 then
                  (case deleteMap h mapPtr originalRow of
                     Inl f \<Rightarrow> Inl f
                   | Inr (h1, _, _) \<Rightarrow> Inr (h1, None, maxRow2, maxCol2))
                else
                  (case createMap h maxRow2 maxCol2 of
                     (h1, None) \<Rightarrow> Inl NullPointer
                   | (h1, Some b) \<Rightarrow>
                       (case (block h1 b, block h1 a) of
                          (Some new0, Some old) \<Rightarrow>
                            (case copyAll new0 old originalRow originalCol of
                               Inl f \<Rightarrow> Inl f
                             | Inr new4 \<Rightarrow>
                                 (case deleteMap (h1[b := Some new4]) mapPtr originalRow of
                                    Inl f \<Rightarrow> Inl f
                                  | Inr (h2, _, _) \<Rightarrow> Inr (h2, Some b, maxRow2, maxCol2)))
                        | _ \<Rightarrow> Inl Dangling)))))"

section \<open>loadLevel\<close>

text \<open>
  \<^verbatim>\<open>loadLevel\<close> reads the level from a \<^verbatim>\<open>std::ifstream\<close> with \<^verbatim>\<open>operator>>\<close>. The stream is
  modelled by the characters that are still to be read. Both extractions first skip white
  space (\<^verbatim>\<open>std::isspace\<close> in the classic locale: space and the characters 9 to 13).
\<close>

definition isspace :: "char \<Rightarrow> bool" where
  "isspace ch = (let n = (of_char ch :: nat) in n = 32 \<or> (9 \<le> n \<and> n \<le> 13))"

definition isdigit :: "char \<Rightarrow> bool" where
  "isdigit ch = (let n = (of_char ch :: nat) in 48 \<le> n \<and> n \<le> 57)"

text \<open>The value of a sequence of decimal digits.\<close>

definition digitsValue :: "string \<Rightarrow> int" where
  "digitsValue ds = foldl (\<lambda>acc d. 10 * acc + (int (of_char d) - 48)) 0 ds"

text \<open>
  \<^verbatim>\<open>fin >> n\<close> for an \<^verbatim>\<open>int\<close>: white space is skipped, then an optional sign and the longest
  run of decimal digits are read. The extraction fails (\<open>None\<close>, \<^verbatim>\<open>fin.fail()\<close>) when there
  is no digit or when the value does not fit in 32 bits; otherwise the result is the value
  and the rest of the stream.
\<close>

definition readInt :: "string \<Rightarrow> (int \<times> string) option" where
  "readInt s =
     (let s1 = dropWhile isspace s;
          neg = (s1 \<noteq> [] \<and> hd s1 = CHR ''-'');
          s2 = (if s1 \<noteq> [] \<and> (hd s1 = CHR ''-'' \<or> hd s1 = CHR ''+'') then tl s1 else s1);
          ds = takeWhile isdigit s2;
          v = (if neg then - digitsValue ds else digitsValue ds)
      in if ds = [] then None
         else if int32 v then Some (v, dropWhile isdigit s2)
         else None)"

text \<open>
  \<^verbatim>\<open>fin >> spot\<close> for a \<^verbatim>\<open>char\<close>: white space is skipped and one character is read. The
  extraction fails at the end of the stream.
\<close>

definition readChar :: "string \<Rightarrow> (char \<times> string) option" where
  "readChar s =
     (case dropWhile isspace s of
        [] \<Rightarrow> None
      | ch # rest \<Rightarrow> Some (ch, rest))"

text \<open>
  The chain of tests of lines 60 to 79 chooses the tile that is stored in the cell
  \<open>(r, c)\<close> for the character \<open>spot\<close>; \<open>None\<close> is the last branch, the invalid character.
\<close>

definition tileFor :: "Player \<Rightarrow> int \<Rightarrow> int \<Rightarrow> char \<Rightarrow> char option" where
  "tileFor player r c spot =
     (if r = row player \<and> c = col player then Some TILE_PLAYER
      else if spot = TILE_TREASURE then Some TILE_TREASURE
      else if spot = TILE_PILLAR then Some TILE_PILLAR
      else if spot = TILE_OPEN then Some TILE_OPEN
      else if spot = TILE_AMULET then Some TILE_AMULET
      else if spot = TILE_MONSTER then Some TILE_MONSTER
      else if spot = TILE_DOOR then Some TILE_DOOR
      else if spot = TILE_EXIT then Some TILE_EXIT
      else None)"

text \<open>
  The nested loops of lines 54 to 81: \<open>fillCols\<close> is the inner loop, \<open>fillRows\<close> the outer
  one, with the loop counters \<^verbatim>\<open>row\<close> and \<^verbatim>\<open>col\<close> as \<open>r\<close> and \<open>c\<close>. The result is the map as
  the loop leaves it and the rest of the stream, or \<open>None\<close> in its place when the loop ran
  into a \<^verbatim>\<open>return nullptr\<close>.
\<close>

function fillCols ::
  "grid \<Rightarrow> int \<Rightarrow> Player \<Rightarrow> int \<Rightarrow> int \<Rightarrow> string \<Rightarrow> fault + (grid \<times> string option)" where
  "fillCols m maxCol player r c s =
     (if c < maxCol then
        (case readChar s of
           None \<Rightarrow> Inr (m, None)
         | Some (spot, s1) \<Rightarrow>
             (case tileFor player r c spot of
                None \<Rightarrow> Inr (m, None)
              | Some t \<Rightarrow>
                  (case writeTile m r c t of
                     Inl f \<Rightarrow> Inl f
                   | Inr m1 \<Rightarrow> fillCols m1 maxCol player r (c + 1) s1)))
      else Inr (m, Some s))"
  by pat_completeness auto
termination
  by (relation "measure (\<lambda>(m, maxCol, player, r, c, s). nat (maxCol - c))") auto

function fillRows ::
  "grid \<Rightarrow> int \<Rightarrow> int \<Rightarrow> Player \<Rightarrow> int \<Rightarrow> string \<Rightarrow> fault + (grid \<times> string option)" where
  "fillRows m maxRow maxCol player r s =
     (if r < maxRow then
        (case fillCols m maxCol player r 0 s of
           Inl f \<Rightarrow> Inl f
         | Inr (m1, None) \<Rightarrow> Inr (m1, None)
         | Inr (m1, Some s1) \<Rightarrow> fillRows m1 maxRow maxCol player (r + 1) s1)
      else Inr (m, Some s))"
  by pat_completeness auto
termination
  by (relation "measure (\<lambda>(m, maxRow, maxCol, player, r, s). nat (maxRow - r))") auto

text \<open>
  The loops of lines 90 to 102 set \<^verbatim>\<open>hasExit\<close> when some cell holds \<^verbatim>\<open>TILE_EXIT\<close> and
  \<^verbatim>\<open>hasDoor\<close> when some cell holds \<^verbatim>\<open>TILE_DOOR\<close>.
\<close>

definition hasTile :: "char \<Rightarrow> grid \<Rightarrow> bool" where
  "hasTile t m = list_ex (\<lambda>r. list_ex (\<lambda>x. x = t) r) m"

text \<open>
  \<^verbatim>\<open>loadLevel\<close> (lines 23 to 107). The file is the text it holds, or \<open>None\<close> when it cannot
  be opened. The dimensions and the player are reference parameters: on success the
  result holds the address of the map, the dimensions and the player as the call leaves
  them (the treasure counter of the player is not touched); where the source returns
  \<^verbatim>\<open>nullptr\<close> the result holds \<open>None\<close> and the values left in the reference parameters are
  not modelled. The store is part of the result in both cases: a failed load after
  \<^verbatim>\<open>createMap\<close> leaves the block allocated.

  The product \<^verbatim>\<open>maxRow * maxCol\<close> is undefined when it leaves the 32-bit range. When
  \<^verbatim>\<open>createMap\<close> returns \<^verbatim>\<open>nullptr\<close>, a dimension is not positive and the test of the start
  position returns before the loops (the product is in range, so \<^verbatim>\<open>createMap\<close> does not
  refuse positive dimensions); the branch \<open>NullPointer\<close> stands for the write through the
  null pointer that would follow otherwise. After the loops, \<^verbatim>\<open>fin >> spot\<close> sets
  \<^verbatim>\<open>fin.eof()\<close> exactly when only white space is left.
\<close>

definition loadLevel ::
  "heap \<Rightarrow> string option \<Rightarrow> Player \<Rightarrow> fault + (heap \<times> (nat \<times> int \<times> int \<times> Player) option)" where
  "loadLevel h file player0 =
     (case file of
        None \<Rightarrow> Inr (h, None)
      | Some s0 \<Rightarrow>
     (case readInt s0 of
        None \<Rightarrow> Inr (h, None)
      | Some (maxRow, s1) \<Rightarrow>
     (case readInt s1 of
        None \<Rightarrow> Inr (h, None)
      | Some (maxCol, s2) \<Rightarrow>
     if \<not> int32 (maxRow * maxCol) then Inl SignedOverflow
     else if maxRow * maxCol \<le> 1 then Inr (h, None)
     else
     (case createMap h maxRow maxCol of (h1, mapPtr) \<Rightarrow>
     (case readInt s2 of
        None \<Rightarrow> Inr (h1, None)
      | Some (pr, s3) \<Rightarrow>
     (case readInt s3 of
        None \<Rightarrow> Inr (h1, None)
      | Some (pc, s4) \<Rightarrow>
     (let player = player0\<lparr>row := pr, col := pc\<rparr> in
      if col player \<ge> maxCol \<or> row player \<ge> maxRow then Inr (h1, None)
      else if col player < 0 \<or> row player < 0 then Inr (h1, None)
      else
     (case mapPtr of
        None \<Rightarrow> Inl NullPointer
      | Some a \<Rightarrow>
     (case block h1 a of
        None \<Rightarrow> Inl Dangling
      | Some m0 \<Rightarrow>
     (case fillRows m0 maxRow maxCol player 0 s4 of
        Inl f \<Rightarrow> Inl f
      | Inr (m1, None) \<Rightarrow> Inr (h1[a := Some m1], None)
      | Inr (m1, Some s5) \<Rightarrow>
          if dropWhile isspace s5 \<noteq> [] then Inr (h1[a := Some m1], None)
          else if \<not> hasTile TILE_DOOR m1 \<and> \<not> hasTile TILE_EXIT m1
          then Inr (h1[a := Some m1], None)
          else Inr (h1[a := Some m1], Some (a, maxRow, maxCol, player))))))))))))"

section \<open>Rays: auxiliary notions for the statements about doMonsterAttack\<close>

text \<open>
  The following notions are not part of the program; the statements about
  \<^verbatim>\<open>doMonsterAttack\<close> are written with them. \<open>rayOf m d pRow pCol j\<close> is the tile at
  distance \<open>j\<close> from the player on the ray of direction \<open>d\<close>. For the tiles \<open>f\<close> of a ray
  of length \<open>len\<close> and a loop entered with the counter \<open>i\<close>: \<open>reaches f i k\<close> says that no cell
  from \<open>i\<close> up to \<open>k - 1\<close> holds a pillar, \<open>advances f len i k\<close> that the cell \<open>k\<close> holds a
  monster that the loop gets to, and \<open>rayTile f len i j\<close> is the tile that the cell \<open>j\<close>
  holds when every such monster has moved one step. \<open>rayIn\<close> says that the cells of a ray
  up to distance \<open>len\<close> are inside the dimensions.
\<close>

definition rayOf :: "grid \<Rightarrow> dir \<Rightarrow> int \<Rightarrow> int \<Rightarrow> int \<Rightarrow> char" where
  "rayOf m d pRow pCol j =
     tileAt m (fst (scanned d pRow pCol j)) (snd (scanned d pRow pCol j))"

definition reaches :: "(int \<Rightarrow> char) \<Rightarrow> int \<Rightarrow> int \<Rightarrow> bool" where
  "reaches f i k = (\<forall>j\<in>{i..<k}. f j \<noteq> TILE_PILLAR)"

definition advances :: "(int \<Rightarrow> char) \<Rightarrow> int \<Rightarrow> int \<Rightarrow> int \<Rightarrow> bool" where
  "advances f len i k = (i \<le> k \<and> k \<le> len \<and> f k = TILE_MONSTER \<and> reaches f i k)"

definition rayTile :: "(int \<Rightarrow> char) \<Rightarrow> int \<Rightarrow> int \<Rightarrow> int \<Rightarrow> char" where
  "rayTile f len i j =
     (if advances f len i (j + 1) then TILE_MONSTER
      else if advances f len i j then TILE_OPEN
      else f j)"

definition rayIn :: "dir \<Rightarrow> int \<Rightarrow> int \<Rightarrow> int \<Rightarrow> int \<Rightarrow> int \<Rightarrow> bool" where
  "rayIn d pRow pCol len maxRow maxCol =
     (\<forall>j. 0 \<le> j \<and> j \<le> len \<longrightarrow>
        0 \<le> fst (scanned d pRow pCol j) \<and> fst (scanned d pRow pCol j) < maxRow \<and>
        0 \<le> snd (scanned d pRow pCol j) \<and> snd (scanned d pRow pCol j) < maxCol)"

text \<open>
  \<open>rayLength\<close> is the length of the ray of a direction, as the source computes it
  (\<^verbatim>\<open>upLength\<close>, \<^verbatim>\<open>downLength\<close>, \<^verbatim>\<open>rightLength\<close>, \<^verbatim>\<open>leftLength\<close>). \<open>adjacentMonster\<close> says
  that, in some direction, the cell next to the player holds a monster.
\<close>

definition rayLength :: "dir \<Rightarrow> int \<Rightarrow> int \<Rightarrow> int \<Rightarrow> int \<Rightarrow> int" where
  "rayLength d maxRow maxCol pRow pCol =
     (case d of
        Above \<Rightarrow> pRow
      | Below \<Rightarrow> (maxRow - 1) - pRow
      | Right \<Rightarrow> (maxCol - 1) - pCol
      | Left \<Rightarrow> pCol)"

definition adjacentMonster :: "grid \<Rightarrow> int \<Rightarrow> int \<Rightarrow> int \<Rightarrow> int \<Rightarrow> bool" where
  "adjacentMonster m maxRow maxCol pRow pCol =
     list_ex (\<lambda>d. 1 \<le> rayLength d maxRow maxCol pRow pCol \<and>
                  rayOf m d pRow pCol 1 = TILE_MONSTER) [Above, Below, Right, Left]"

section \<open>Auxiliary notions for the statements about resizeMap\<close>

text \<open>
  \<open>blanked blank t\<close> is the tile that a copying loop of \<^verbatim>\<open>resizeMap\<close> leaves in the new map
  for the tile \<open>t\<close> of the old one: \<open>TILE_OPEN\<close> in place of the player tile when the loop
  is one of the three that test for \<^verbatim>\<open>TILE_PLAYER\<close>.
\<close>

definition blanked :: "bool \<Rightarrow> char \<Rightarrow> char" where
  "blanked blank t = (if blank \<and> t = TILE_PLAYER then TILE_OPEN else t)"

section \<open>Auxiliary notions for the statements about loadLevel\<close>

text \<open>
  \<open>tileTokens s\<close> are the tile tokens of the text \<open>s\<close> that follows the header of a level:
  its characters other than white space, in order (each \<^verbatim>\<open>fin >> spot\<close> reads the next one).
  For a level with \<open>maxCol\<close> columns the token of the cell \<open>(i, j)\<close> is the one at index
  \<open>i * maxCol + j\<close>. \<open>recognised\<close> are the seven tile characters that \<^verbatim>\<open>loadLevel\<close> accepts.
\<close>

definition tileTokens :: "string \<Rightarrow> string" where
  "tileTokens s = filter (\<lambda>ch. \<not> isspace ch) s"

definition recognised :: "char list" where
  "recognised =
     [TILE_TREASURE, TILE_PILLAR, TILE_OPEN, TILE_AMULET, TILE_MONSTER, TILE_DOOR, TILE_EXIT]"

text \<open>
  \<open>replaceToken k y s\<close> is the text \<open>s\<close> with \<open>y\<close> in place of its tile token of index \<open>k\<close>
  (\<open>s\<close> itself when it has no such token); the white space and the other tokens stay.
\<close>

fun replaceToken :: "nat \<Rightarrow> char \<Rightarrow> string \<Rightarrow> string" where
  "replaceToken k y [] = []"
| "replaceToken k y (ch # s) =
     (if isspace ch then ch # replaceToken k y s
      else if k = 0 then y # s
      else ch # replaceToken (k - 1) y s)"

section \<open>Facts about maps\<close>

lemmas tile_defs = TILE_OPEN_def TILE_PLAYER_def TILE_TREASURE_def TILE_AMULET_def
  TILE_MONSTER_def TILE_PILLAR_def TILE_DOOR_def TILE_EXIT_def

lemma inGrid_wf:
  "wfGrid m maxRow maxCol \<Longrightarrow> inGrid m r c = (0 \<le> r \<and> r < maxRow \<and> 0 \<le> c \<and> c < maxCol)"
  by (auto simp: wfGrid_def inGrid_def list_all_length)

lemma readTile_wf:
  "wfGrid m maxRow maxCol \<Longrightarrow> 0 \<le> r \<Longrightarrow> r < maxRow \<Longrightarrow> 0 \<le> c \<Longrightarrow> c < maxCol \<Longrightarrow>
   readTile m r c = Inr (tileAt m r c)"
  by (simp add: readTile_def inGrid_wf)

lemma writeTile_wf:
  "wfGrid m maxRow maxCol \<Longrightarrow> 0 \<le> r \<Longrightarrow> r < maxRow \<Longrightarrow> 0 \<le> c \<Longrightarrow> c < maxCol \<Longrightarrow>
   writeTile m r c v = Inr (setTile m r c v)"
  by (simp add: writeTile_def inGrid_wf)

lemma wfGrid_setTile:
  "wfGrid m maxRow maxCol \<Longrightarrow> wfGrid (setTile m r c v) maxRow maxCol"
proof -
  assume wf: "wfGrid m maxRow maxCol"
  have "int (length (m[nat r := (m ! nat r)[nat c := v]] ! n)) = maxCol"
    if "n < length m" for n
    using that wf by (cases "n = nat r") (simp_all add: wfGrid_def list_all_length)
  with wf show ?thesis
    by (simp add: wfGrid_def setTile_def list_all_length)
qed

lemma tileAt_setTile:
  "wfGrid m maxRow maxCol \<Longrightarrow> 0 \<le> r \<Longrightarrow> r < maxRow \<Longrightarrow> 0 \<le> c \<Longrightarrow> c < maxCol \<Longrightarrow>
   0 \<le> r' \<Longrightarrow> r' < maxRow \<Longrightarrow> 0 \<le> c' \<Longrightarrow> c' < maxCol \<Longrightarrow>
   tileAt (setTile m r c v) r' c' = (if r' = r \<and> c' = c then v else tileAt m r' c')"
proof -
  assume wf: "wfGrid m maxRow maxCol"
    and r: "0 \<le> r" "r < maxRow" and c: "0 \<le> c" "c < maxCol"
    and r': "0 \<le> r'" "r' < maxRow" and c': "0 \<le> c'" "c' < maxCol"
  from wf r have lr: "nat r < length m" by (auto simp: wfGrid_def)
  from wf r' have lr': "nat r' < length m" by (auto simp: wfGrid_def)
  from wf lr c have lc: "nat c < length (m ! nat r)"
    by (auto simp: wfGrid_def list_all_length)
  have eqr: "nat r' = nat r \<longleftrightarrow> r' = r" using r r' by auto
  have eqc: "nat c' = nat c \<longleftrightarrow> c' = c" using c c' by auto
  show ?thesis
    using lr lr' lc eqr eqc by (auto simp: setTile_def tileAt_def nth_list_update)
qed

lemma count_row_update:
  "c < length xs \<Longrightarrow>
   length (filter P (xs[c := v])) + (if P (xs ! c) then 1 else 0) =
   length (filter P xs) + (if P v then 1 else 0)"
proof (induction xs arbitrary: c)
  case Nil
  then show ?case by simp
next
  case (Cons x xs)
  show ?case
  proof (cases c)
    case 0
    then show ?thesis by simp
  next
    case (Suc k)
    with Cons.prems have "k < length xs" by simp
    from Cons.IH [OF this] Suc show ?thesis by simp
  qed
qed

lemma count_concat: "length (filter P (concat m)) = sum_list (map (\<lambda>r. length (filter P r)) m)"
  by (induction m) auto

lemma sum_list_map_update:
  "i < length xs \<Longrightarrow>
   sum_list (map f (xs[i := y])) + f (xs ! i) = sum_list (map f xs) + (f y :: nat)"
proof (induction xs arbitrary: i)
  case Nil
  then show ?case by simp
next
  case (Cons x xs)
  show ?case
  proof (cases i)
    case 0
    then show ?thesis by simp
  next
    case (Suc k)
    with Cons.prems have "k < length xs" by simp
    from Cons.IH [OF this] Suc show ?thesis by simp
  qed
qed

lemma playerCount_setTile:
  assumes "inGrid m r c"
  shows "playerCount (setTile m r c v) + (if tileAt m r c = TILE_PLAYER then 1 else 0) =
         playerCount m + (if v = TILE_PLAYER then 1 else 0)"
proof -
  let ?P = "\<lambda>t. t = TILE_PLAYER"
  let ?f = "\<lambda>r. length (filter ?P r)"
  from assms have r: "nat r < length m" and c: "nat c < length (m ! nat r)"
    by (auto simp: inGrid_def)
  have "sum_list (map ?f (m[nat r := (m ! nat r)[nat c := v]])) + ?f (m ! nat r) =
        sum_list (map ?f m) + ?f ((m ! nat r)[nat c := v])"
    using r by (rule sum_list_map_update)
  moreover have "?f ((m ! nat r)[nat c := v]) + (if ?P (m ! nat r ! nat c) then 1 else 0) =
        ?f (m ! nat r) + (if ?P v then 1 else 0)"
    using c by (rule count_row_update)
  ultimately show ?thesis
    by (simp add: playerCount_def setTile_def tileAt_def count_concat)
qed

lemma tileAt_in_set:
  assumes "wfGrid m maxRow maxCol" "0 \<le> r" "r < maxRow" "0 \<le> c" "c < maxCol"
  shows "tileAt m r c \<in> set (concat m)"
proof -
  from assms have r: "nat r < length m" by (auto simp: wfGrid_def)
  with assms have c: "nat c < length (m ! nat r)" by (auto simp: wfGrid_def list_all_length)
  from r have "m ! nat r \<in> set m" by simp
  moreover from c have "m ! nat r ! nat c \<in> set (m ! nat r)" by simp
  ultimately show ?thesis by (auto simp: tileAt_def)
qed

lemma in_set_tileAt:
  assumes "wfGrid m maxRow maxCol" "x \<in> set (concat m)"
  shows "\<exists>r c. 0 \<le> r \<and> r < maxRow \<and> 0 \<le> c \<and> c < maxCol \<and> tileAt m r c = x"
proof -
  from assms(2) obtain xs where xs: "xs \<in> set m" "x \<in> set xs" by auto
  then obtain i j where i: "i < length m" "m ! i = xs" and j: "j < length xs" "xs ! j = x"
    by (auto simp: in_set_conv_nth)
  from assms(1) i j have "int i < maxRow" "int j < maxCol"
    by (auto simp: wfGrid_def list_all_length)
  with i j have "0 \<le> int i \<and> int i < maxRow \<and> 0 \<le> int j \<and> int j < maxCol \<and>
      tileAt m (int i) (int j) = x"
    by (simp add: tileAt_def)
  then show ?thesis by blast
qed

lemma playerCount_0:
  assumes "wfGrid m maxRow maxCol"
  shows "(playerCount m = 0) =
         (\<forall>r c. 0 \<le> r \<and> r < maxRow \<and> 0 \<le> c \<and> c < maxCol \<longrightarrow> tileAt m r c \<noteq> TILE_PLAYER)"
proof
  assume "playerCount m = 0"
  then have "\<forall>x\<in>set (concat m). x \<noteq> TILE_PLAYER"
    by (simp add: playerCount_def filter_empty_conv)
  with tileAt_in_set [OF assms] show "\<forall>r c. 0 \<le> r \<and> r < maxRow \<and> 0 \<le> c \<and> c < maxCol \<longrightarrow>
      tileAt m r c \<noteq> TILE_PLAYER"
    by blast
next
  assume none: "\<forall>r c. 0 \<le> r \<and> r < maxRow \<and> 0 \<le> c \<and> c < maxCol \<longrightarrow>
      tileAt m r c \<noteq> TILE_PLAYER"
  have "x \<noteq> TILE_PLAYER" if "x \<in> set (concat m)" for x
    using in_set_tileAt [OF assms that] none by blast
  then show "playerCount m = 0"
    by (simp add: playerCount_def filter_empty_conv)
qed

lemma playerCount_1:
  assumes wf: "wfGrid m maxRow maxCol"
    and inb: "0 \<le> pr" "pr < maxRow" "0 \<le> pc" "pc < maxCol"
  shows "(playerCount m = 1 \<and> tileAt m pr pc = TILE_PLAYER) =
         (\<forall>r c. 0 \<le> r \<and> r < maxRow \<and> 0 \<le> c \<and> c < maxCol \<longrightarrow>
            (tileAt m r c = TILE_PLAYER) = (r = pr \<and> c = pc))"
proof -
  let ?m0 = "setTile m pr pc TILE_OPEN"
  have wf0: "wfGrid ?m0 maxRow maxCol" using wf by (rule wfGrid_setTile)
  have ing: "inGrid m pr pc" using wf inb by (simp add: inGrid_wf)
  have cnt: "playerCount ?m0 + (if tileAt m pr pc = TILE_PLAYER then 1 else 0) = playerCount m"
    using playerCount_setTile [OF ing, of TILE_OPEN] by (simp add: tile_defs)
  have t0: "tileAt ?m0 r c = (if r = pr \<and> c = pc then TILE_OPEN else tileAt m r c)"
    if "0 \<le> r" "r < maxRow" "0 \<le> c" "c < maxCol" for r c
    using tileAt_setTile [OF wf inb that] .
  show ?thesis
  proof
    assume a: "playerCount m = 1 \<and> tileAt m pr pc = TILE_PLAYER"
    with cnt have "playerCount ?m0 = 0" by simp
    with playerCount_0 [OF wf0]
    have "\<forall>r c. 0 \<le> r \<and> r < maxRow \<and> 0 \<le> c \<and> c < maxCol \<longrightarrow> tileAt ?m0 r c \<noteq> TILE_PLAYER"
      by simp
    with t0 a show "\<forall>r c. 0 \<le> r \<and> r < maxRow \<and> 0 \<le> c \<and> c < maxCol \<longrightarrow>
        (tileAt m r c = TILE_PLAYER) = (r = pr \<and> c = pc)"
      by (metis (no_types))
  next
    assume u: "\<forall>r c. 0 \<le> r \<and> r < maxRow \<and> 0 \<le> c \<and> c < maxCol \<longrightarrow>
        (tileAt m r c = TILE_PLAYER) = (r = pr \<and> c = pc)"
    with inb have p: "tileAt m pr pc = TILE_PLAYER" by simp
    have "tileAt ?m0 r c \<noteq> TILE_PLAYER"
      if "0 \<le> r" "r < maxRow" "0 \<le> c" "c < maxCol" for r c
      using t0 [OF that] u that by (auto simp: tile_defs)
    with playerCount_0 [OF wf0] have "playerCount ?m0 = 0" by simp
    with cnt p show "playerCount m = 1 \<and> tileAt m pr pc = TILE_PLAYER" by simp
  qed
qed

section \<open>Facts about the loops of doMonsterAttack\<close>

lemma reaches_step:
  "i < k \<Longrightarrow> reaches f i k = (f i \<noteq> TILE_PILLAR \<and> reaches f (i + 1) k)"
proof -
  assume "i < k"
  then have "{i..<k} = insert i {i + 1..<k}" by auto
  then show ?thesis by (simp add: reaches_def)
qed

lemma advances_bounds: "advances f len i k \<Longrightarrow> i \<le> k \<and> k \<le> len"
  by (simp add: advances_def)

lemma advances_here: "advances f len i i = (i \<le> len \<and> f i = TILE_MONSTER)"
  by (auto simp: advances_def reaches_def)

lemma advances_step:
  "f i \<noteq> TILE_PILLAR \<Longrightarrow> i < k \<Longrightarrow> advances f len i k = advances f len (i + 1) k"
  by (auto simp: advances_def reaches_step)

lemma advances_pillar: "f i = TILE_PILLAR \<Longrightarrow> \<not> advances f len i k"
proof (cases "i < k")
  case True
  assume "f i = TILE_PILLAR"
  with True show ?thesis by (simp add: advances_def reaches_step)
next
  case False
  assume "f i = TILE_PILLAR"
  with False show ?thesis
    by (auto simp: advances_def TILE_PILLAR_def TILE_MONSTER_def)
qed

lemma advances_cong:
  "(\<And>j. i \<le> j \<Longrightarrow> j \<le> len \<Longrightarrow> g j = f j) \<Longrightarrow>
   advances g len i k = advances f len i k"
  by (auto simp: advances_def reaches_def)

lemma scanned_inj: "scanned d pRow pCol i = scanned d pRow pCol j \<longleftrightarrow> i = j"
  by (cases d) auto

lemma closer_scanned: "closer d pRow pCol i = scanned d pRow pCol (i - 1)"
  by (cases d) auto

declare scanRay.simps [simp del]

lemma rayOf_setTile:
  assumes "wfGrid m maxRow maxCol" and "rayIn d pRow pCol len maxRow maxCol"
    and "0 \<le> a" and "a \<le> len" and "0 \<le> j" and "j \<le> len"
  shows "rayOf (setTile m (fst (scanned d pRow pCol a)) (snd (scanned d pRow pCol a)) v)
           d pRow pCol j = (if j = a then v else rayOf m d pRow pCol j)"
proof -
  have "(fst (scanned d pRow pCol j) = fst (scanned d pRow pCol a) \<and>
         snd (scanned d pRow pCol j) = snd (scanned d pRow pCol a)) = (j = a)"
    using scanned_inj [of d pRow pCol j a] by (simp add: prod_eq_iff)
  then show ?thesis
    using assms by (simp add: rayOf_def rayIn_def tileAt_setTile [OF assms(1)])
qed

lemma off_ray_setTile:
  assumes "wfGrid m maxRow maxCol" and "rayIn d pRow pCol len maxRow maxCol"
    and "0 \<le> a" and "a \<le> len"
    and "0 \<le> r" and "r < maxRow" and "0 \<le> c" and "c < maxCol"
    and "(r, c) \<noteq> scanned d pRow pCol a"
  shows "tileAt (setTile m (fst (scanned d pRow pCol a)) (snd (scanned d pRow pCol a)) v) r c =
           tileAt m r c"
  using assms by (auto simp: rayIn_def tileAt_setTile [OF assms(1)] prod_eq_iff)

lemma scanRay_spec:
  "wfGrid m maxRow maxCol \<Longrightarrow> 1 \<le> i \<Longrightarrow> rayIn d pRow pCol len maxRow maxCol \<Longrightarrow>
   \<exists>m'. scanRay d pRow pCol len i m eaten =
          Inr (m', eaten \<or> (i = 1 \<and> advances (rayOf m d pRow pCol) len 1 1)) \<and>
        wfGrid m' maxRow maxCol \<and>
        (\<forall>j. i - 1 \<le> j \<and> j \<le> len \<longrightarrow>
           rayOf m' d pRow pCol j = rayTile (rayOf m d pRow pCol) len i j) \<and>
        (\<forall>r c. 0 \<le> r \<and> r < maxRow \<and> 0 \<le> c \<and> c < maxCol \<and>
           (\<forall>j. i - 1 \<le> j \<and> j \<le> len \<longrightarrow> (r, c) \<noteq> scanned d pRow pCol j) \<longrightarrow>
           tileAt m' r c = tileAt m r c)"
proof (induction d pRow pCol len i m eaten rule: scanRay.induct)
  case (1 d pRow pCol len i m eaten)
  let ?f = "rayOf m d pRow pCol"
  let ?r = "fst (scanned d pRow pCol i)" and ?c = "snd (scanned d pRow pCol i)"
  let ?r' = "fst (closer d pRow pCol i)" and ?c' = "snd (closer d pRow pCol i)"
  note wf = \<open>wfGrid m maxRow maxCol\<close> and i1 = \<open>1 \<le> i\<close>
    and rin = \<open>rayIn d pRow pCol len maxRow maxCol\<close>
  show ?case
  proof (cases "i \<le> len")
    case False
    have run: "scanRay d pRow pCol len i m eaten = Inr (m, eaten)"
      using False by (subst scanRay.simps) simp
    have no: "\<not> advances ?f len i k" for k
      using False advances_bounds [of ?f len i k] by auto
    have no1: "i = 1 \<Longrightarrow> \<not> advances ?f len 1 1"
      using no [of 1] by simp
    show ?thesis
      using run wf no no1 by (auto simp: rayTile_def)
  next
    case True
    have inb: "0 \<le> ?r" "?r < maxRow" "0 \<le> ?c" "?c < maxCol"
      using rin i1 True by (simp_all add: rayIn_def)
    have cl: "closer d pRow pCol i = scanned d pRow pCol (i - 1)"
      by (rule closer_scanned)
    have inb': "0 \<le> ?r'" "?r' < maxRow" "0 \<le> ?c'" "?c' < maxCol"
      using rin i1 True by (simp_all add: rayIn_def cl)
    have rd: "readTile m ?r ?c = Inr (?f i)"
      using wf inb by (simp add: readTile_wf rayOf_def)
    consider (monster) "?f i = TILE_MONSTER"
      | (pillar) "?f i = TILE_PILLAR"
      | (other) "?f i \<noteq> TILE_MONSTER" "?f i \<noteq> TILE_PILLAR"
      by blast
    then show ?thesis
    proof cases
      case pillar
      then have nm: "?f i \<noteq> TILE_MONSTER" by (simp add: tile_defs)
      have run: "scanRay d pRow pCol len i m eaten = Inr (m, eaten)"
        using True rd pillar nm by (subst scanRay.simps) simp
      have no: "\<not> advances ?f len i k" for k
        using pillar by (rule advances_pillar)
      have no1: "i = 1 \<Longrightarrow> \<not> advances ?f len 1 1"
        using no [of 1] by simp
      show ?thesis
        using run wf no no1 by (auto simp: rayTile_def)
    next
      case other
      have run: "scanRay d pRow pCol len i m eaten = scanRay d pRow pCol len (i + 1) m eaten"
        using True rd other by (subst scanRay.simps) simp
      from "1.IH"(2) [OF True rd other wf _ rin] i1
      obtain m' where m': "scanRay d pRow pCol len (i + 1) m eaten = Inr (m', eaten)"
        and wf': "wfGrid m' maxRow maxCol"
        and ray': "\<And>j. i \<le> j \<Longrightarrow> j \<le> len \<Longrightarrow>
                     rayOf m' d pRow pCol j = rayTile ?f len (i + 1) j"
        and frame': "\<And>r c. 0 \<le> r \<Longrightarrow> r < maxRow \<Longrightarrow> 0 \<le> c \<Longrightarrow> c < maxCol \<Longrightarrow>
                     (\<forall>j. i \<le> j \<and> j \<le> len \<longrightarrow> (r, c) \<noteq> scanned d pRow pCol j) \<Longrightarrow>
                     tileAt m' r c = tileAt m r c"
        by auto
      have here: "\<not> advances ?f len i i"
        using other by (simp add: advances_here)
      have step: "advances ?f len i k = advances ?f len (i + 1) k" if "i < k" for k
        using other(2) that by (rule advances_step)
      have before: "\<not> advances ?f len i k" if "k < i" for k
        using that advances_bounds [of ?f len i k] by auto
      have before': "\<not> advances ?f len (i + 1) k" if "k \<le> i" for k
        using that advances_bounds [of ?f len "i + 1" k] by auto
      have no1: "i = 1 \<Longrightarrow> \<not> advances ?f len 1 1"
        using here by simp
      have ray: "rayOf m' d pRow pCol j = rayTile ?f len i j" if "i - 1 \<le> j" "j \<le> len" for j
      proof (cases "i \<le> j")
        case True
        show ?thesis
        proof (cases "j = i")
          case True
          with ray' [of i] that step [of "i + 1"] here before' [of i] show ?thesis
            by (simp add: rayTile_def)
        next
          case False
          with True have "i < j" by simp
          with ray' [of j] that step [of j] step [of "j + 1"] show ?thesis
            by (simp add: rayTile_def)
        qed
      next
        case False
        with that have j: "j = i - 1" by simp
        have "(fst (scanned d pRow pCol j), snd (scanned d pRow pCol j)) \<noteq> scanned d pRow pCol j'"
          if "i \<le> j'" for j'
          using that j scanned_inj [of d pRow pCol j j'] by simp
        then have "tileAt m' (fst (scanned d pRow pCol j)) (snd (scanned d pRow pCol j)) =
              tileAt m (fst (scanned d pRow pCol j)) (snd (scanned d pRow pCol j))"
          using frame' [of "fst (scanned d pRow pCol j)" "snd (scanned d pRow pCol j)"]
            inb' cl j by simp
        then show ?thesis
          using j here before [of j] by (simp add: rayTile_def rayOf_def)
      qed
      have frame: "tileAt m' r c = tileAt m r c"
        if "0 \<le> r" "r < maxRow" "0 \<le> c" "c < maxCol"
          "\<forall>j. i - 1 \<le> j \<and> j \<le> len \<longrightarrow> (r, c) \<noteq> scanned d pRow pCol j" for r c
        using frame' [of r c] that by auto
      show ?thesis
        using run m' wf' ray frame no1 by auto
    next
      case monster
      then have np: "?f i \<noteq> TILE_PILLAR" by (simp add: tile_defs)
      let ?m1 = "setTile m ?r ?c TILE_OPEN"
      let ?m2 = "setTile ?m1 ?r' ?c' TILE_MONSTER"
      let ?e2 = "if i = 1 then True else eaten"
      have wf1: "wfGrid ?m1 maxRow maxCol" using wf by (rule wfGrid_setTile)
      have wf2: "wfGrid ?m2 maxRow maxCol" using wf1 by (rule wfGrid_setTile)
      have w1: "writeTile m ?r ?c TILE_OPEN = Inr ?m1"
        using wf inb by (simp add: writeTile_wf)
      have w2: "writeTile ?m1 ?r' ?c' TILE_MONSTER = Inr ?m2"
        using wf1 inb' by (simp add: writeTile_wf)
      have run: "scanRay d pRow pCol len i m eaten = scanRay d pRow pCol len (i + 1) ?m2 ?e2"
        using True rd monster w1 w2 by (subst scanRay.simps) simp
      from "1.IH"(1) [OF True rd monster w1 w2 wf2 _ rin] i1
      obtain m' where m': "scanRay d pRow pCol len (i + 1) ?m2 ?e2 = Inr (m', ?e2)"
        and wf': "wfGrid m' maxRow maxCol"
        and ray': "\<And>j. i \<le> j \<Longrightarrow> j \<le> len \<Longrightarrow>
                     rayOf m' d pRow pCol j = rayTile (rayOf ?m2 d pRow pCol) len (i + 1) j"
        and frame': "\<And>r c. 0 \<le> r \<Longrightarrow> r < maxRow \<Longrightarrow> 0 \<le> c \<Longrightarrow> c < maxCol \<Longrightarrow>
                     (\<forall>j. i \<le> j \<and> j \<le> len \<longrightarrow> (r, c) \<noteq> scanned d pRow pCol j) \<Longrightarrow>
                     tileAt m' r c = tileAt ?m2 r c"
        by auto
      have f2: "rayOf ?m2 d pRow pCol j =
                  (if j = i - 1 then TILE_MONSTER else if j = i then TILE_OPEN else ?f j)"
        if "0 \<le> j" "j \<le> len" for j
        using that i1 True
        by (simp add: cl rayOf_setTile [OF wf1 rin] rayOf_setTile [OF wf rin])
      have here: "advances ?f len i i"
        using monster True by (simp add: advances_here)
      have step: "advances ?f len i k = advances ?f len (i + 1) k" if "i < k" for k
        using np that by (rule advances_step)
      have cong: "advances (rayOf ?m2 d pRow pCol) len (i + 1) k = advances ?f len (i + 1) k" for k
        using f2 i1 by (intro advances_cong) simp
      have before': "\<not> advances ?f len (i + 1) k" if "k \<le> i" for k
        using that advances_bounds [of ?f len "i + 1" k] by auto
      have e: "(eaten \<or> (i = 1 \<and> advances ?f len 1 1)) = ?e2"
        using here i1 by auto
      have ray: "rayOf m' d pRow pCol j = rayTile ?f len i j" if "i - 1 \<le> j" "j \<le> len" for j
      proof (cases "i \<le> j")
        case True
        show ?thesis
        proof (cases "j = i")
          case True
          with ray' [of i] that step [of "i + 1"] here before' [of i] cong f2 [of i] i1
          show ?thesis
            by (simp add: rayTile_def)
        next
          case False
          with True have "i < j" by simp
          with ray' [of j] that step [of j] step [of "j + 1"] cong f2 [of j] i1 show ?thesis
            by (simp add: rayTile_def)
        qed
      next
        case False
        with that have j: "j = i - 1" by simp
        have "(fst (scanned d pRow pCol j), snd (scanned d pRow pCol j)) \<noteq> scanned d pRow pCol j'"
          if "i \<le> j'" for j'
          using that j scanned_inj [of d pRow pCol j j'] by simp
        then have "tileAt m' (fst (scanned d pRow pCol j)) (snd (scanned d pRow pCol j)) =
              tileAt ?m2 (fst (scanned d pRow pCol j)) (snd (scanned d pRow pCol j))"
          using frame' [of "fst (scanned d pRow pCol j)" "snd (scanned d pRow pCol j)"]
            inb' cl j by simp
        then have "rayOf m' d pRow pCol j = rayOf ?m2 d pRow pCol j"
          by (simp add: rayOf_def)
        then show ?thesis
          using j here f2 [of j] i1 True by (simp add: rayTile_def)
      qed
      have frame: "tileAt m' r c = tileAt m r c"
        if "0 \<le> r" "r < maxRow" "0 \<le> c" "c < maxCol"
          "\<forall>j. i - 1 \<le> j \<and> j \<le> len \<longrightarrow> (r, c) \<noteq> scanned d pRow pCol j" for r c
      proof -
        have "tileAt m' r c = tileAt ?m2 r c"
          using frame' [of r c] that by auto
        also have "\<dots> = tileAt ?m1 r c"
          unfolding cl using wf1 rin _ _ that(1-4)
        proof (rule off_ray_setTile)
          show "0 \<le> i - 1" using i1 by simp
          show "i - 1 \<le> len" using True by simp
          show "(r, c) \<noteq> scanned d pRow pCol (i - 1)" using that(5) True by simp
        qed
        also have "\<dots> = tileAt m r c"
          using wf rin _ _ that(1-4)
        proof (rule off_ray_setTile)
          show "0 \<le> i" using i1 by simp
          show "i \<le> len" using True by simp
          show "(r, c) \<noteq> scanned d pRow pCol i" using that(5) True by simp
        qed
        finally show ?thesis .
      qed
      show ?thesis
        unfolding e using run m' wf' ray frame by auto
    qed
  qed
qed

lemma rayIn_rayLength:
  "0 \<le> pRow \<Longrightarrow> pRow < maxRow \<Longrightarrow> 0 \<le> pCol \<Longrightarrow> pCol < maxCol \<Longrightarrow>
   rayIn d pRow pCol (rayLength d maxRow maxCol pRow pCol) maxRow maxCol"
  by (cases d) (auto simp: rayIn_def rayLength_def)

lemma scanned_0: "scanned d pRow pCol 0 = (pRow, pCol)"
  by (cases d) auto

lemma scanned_disjoint:
  "d \<noteq> d' \<Longrightarrow> 1 \<le> i \<Longrightarrow> 0 \<le> j \<Longrightarrow> scanned d pRow pCol i \<noteq> scanned d' pRow pCol j"
  by (cases d; cases d') auto

lemma rayTile_cong:
  "(\<And>j. i \<le> j \<Longrightarrow> j \<le> len \<Longrightarrow> g j = f j) \<Longrightarrow> i \<le> j \<Longrightarrow> j \<le> len \<Longrightarrow>
   rayTile g len i j = rayTile f len i j"
  using advances_cong [of i len g f] by (simp add: rayTile_def)

lemma scanRay_whole:
  assumes wf: "wfGrid m maxRow maxCol"
    and rin: "rayIn d pRow pCol len maxRow maxCol"
  shows "\<exists>m'. scanRay d pRow pCol len 1 m eaten =
                 Inr (m', eaten \<or> advances (rayOf m d pRow pCol) len 1 1) \<and>
           wfGrid m' maxRow maxCol \<and>
           (\<forall>j. 1 \<le> j \<and> j \<le> len \<longrightarrow>
              rayOf m' d pRow pCol j = rayTile (rayOf m d pRow pCol) len 1 j) \<and>
           tileAt m' pRow pCol =
             (if advances (rayOf m d pRow pCol) len 1 1 then TILE_MONSTER
              else tileAt m pRow pCol) \<and>
           (\<forall>r c. 0 \<le> r \<and> r < maxRow \<and> 0 \<le> c \<and> c < maxCol \<and>
              (\<forall>j. 0 \<le> j \<and> j \<le> len \<longrightarrow> (r, c) \<noteq> scanned d pRow pCol j) \<longrightarrow>
              tileAt m' r c = tileAt m r c)"
proof -
  let ?f = "rayOf m d pRow pCol"
  from scanRay_spec [OF wf _ rin, of 1 eaten]
  obtain m' where run: "scanRay d pRow pCol len 1 m eaten = Inr (m', eaten \<or> advances ?f len 1 1)"
    and wf': "wfGrid m' maxRow maxCol"
    and ray: "\<And>j. 0 \<le> j \<Longrightarrow> j \<le> len \<Longrightarrow> rayOf m' d pRow pCol j = rayTile ?f len 1 j"
    and frame: "\<forall>r c. 0 \<le> r \<and> r < maxRow \<and> 0 \<le> c \<and> c < maxCol \<and>
              (\<forall>j. 0 \<le> j \<and> j \<le> len \<longrightarrow> (r, c) \<noteq> scanned d pRow pCol j) \<longrightarrow>
              tileAt m' r c = tileAt m r c"
    by auto
  have no0: "\<not> advances ?f len 1 0"
    using advances_bounds [of ?f len 1 0] by auto
  have p: "tileAt m' pRow pCol = (if advances ?f len 1 1 then TILE_MONSTER else tileAt m pRow pCol)"
  proof (cases "0 \<le> len")
    case True
    from ray [of 0] True no0 show ?thesis
      by (simp add: rayOf_def scanned_0 rayTile_def)
  next
    case False
    then have "\<not> advances ?f len 1 1"
      using advances_bounds [of ?f len 1 1] by auto
    moreover have "scanRay d pRow pCol len 1 m eaten = Inr (m, eaten)"
      using False by (subst scanRay.simps) simp
    ultimately show ?thesis using run by simp
  qed
  from run wf' ray p frame show ?thesis by auto
qed

lemma other_ray_unchanged:
  assumes frame: "\<forall>r c. 0 \<le> r \<and> r < maxRow \<and> 0 \<le> c \<and> c < maxCol \<and>
              (\<forall>j. 0 \<le> j \<and> j \<le> len \<longrightarrow> (r, c) \<noteq> scanned d pRow pCol j) \<longrightarrow>
              tileAt m' r c = tileAt m r c"
    and ne: "d' \<noteq> d" and j: "1 \<le> j" "j \<le> len'"
    and rin: "rayIn d' pRow pCol len' maxRow maxCol"
  shows "rayOf m' d' pRow pCol j = rayOf m d' pRow pCol j"
proof -
  let ?r = "fst (scanned d' pRow pCol j)" and ?c = "snd (scanned d' pRow pCol j)"
  have inb: "0 \<le> ?r \<and> ?r < maxRow \<and> 0 \<le> ?c \<and> ?c < maxCol"
    using rin j by (simp add: rayIn_def)
  have "(?r, ?c) \<noteq> scanned d pRow pCol j'" if "0 \<le> j'" for j'
    using scanned_disjoint [OF ne j(1) that, of pRow pCol] by simp
  with frame inb have "tileAt m' ?r ?c = tileAt m ?r ?c" by blast
  then show ?thesis by (simp add: rayOf_def)
qed

lemma doMonsterAttack_spec:
  assumes wf: "wfGrid m maxRow maxCol"
    and pr: "0 \<le> row p" "row p < maxRow" and pc: "0 \<le> col p" "col p < maxCol"
  shows "\<exists>m'. doMonsterAttack m maxRow maxCol p =
                 Inr (adjacentMonster m maxRow maxCol (row p) (col p), m') \<and>
           wfGrid m' maxRow maxCol \<and>
           (\<forall>d j. 1 \<le> j \<and> j \<le> rayLength d maxRow maxCol (row p) (col p) \<longrightarrow>
              rayOf m' d (row p) (col p) j =
                rayTile (rayOf m d (row p) (col p))
                  (rayLength d maxRow maxCol (row p) (col p)) 1 j) \<and>
           tileAt m' (row p) (col p) =
             (if adjacentMonster m maxRow maxCol (row p) (col p) then TILE_MONSTER
              else tileAt m (row p) (col p)) \<and>
           (\<forall>r c. 0 \<le> r \<and> r < maxRow \<and> 0 \<le> c \<and> c < maxCol \<and>
              (\<forall>d j. 0 \<le> j \<and> j \<le> rayLength d maxRow maxCol (row p) (col p) \<longrightarrow>
                 (r, c) \<noteq> scanned d (row p) (col p) j) \<longrightarrow>
              tileAt m' r c = tileAt m r c)"
proof -
  let ?pr = "row p" and ?pc = "col p"
  let ?L = "\<lambda>d. rayLength d maxRow maxCol ?pr ?pc"
  let ?F = "\<lambda>d. rayOf m d ?pr ?pc"
  let ?A = "\<lambda>m d. advances (rayOf m d ?pr ?pc) (?L d) 1 1"
  have rin: "rayIn d ?pr ?pc (?L d) maxRow maxCol" for d
    using pr pc by (rule rayIn_rayLength)
  have adv: "advances f len 1 1 = (1 \<le> len \<and> f 1 = TILE_MONSTER)" for f len
    by (simp add: advances_here)
  \<comment> \<open>the four loops\<close>
  from scanRay_whole [OF wf rin, of Above False]
  obtain m1 where run1: "scanRay Above ?pr ?pc (?L Above) 1 m False = Inr (m1, ?A m Above)"
    and wf1: "wfGrid m1 maxRow maxCol"
    and ray1: "\<And>j. 1 \<le> j \<Longrightarrow> j \<le> ?L Above \<Longrightarrow>
        rayOf m1 Above ?pr ?pc j = rayTile (rayOf m Above ?pr ?pc) (?L Above) 1 j"
    and p1: "tileAt m1 ?pr ?pc = (if ?A m Above then TILE_MONSTER else tileAt m ?pr ?pc)"
    and fr1: "\<forall>r c. 0 \<le> r \<and> r < maxRow \<and> 0 \<le> c \<and> c < maxCol \<and>
        (\<forall>j. 0 \<le> j \<and> j \<le> ?L Above \<longrightarrow> (r, c) \<noteq> scanned Above ?pr ?pc j) \<longrightarrow>
        tileAt m1 r c = tileAt m r c"
    by auto
  from scanRay_whole [OF wf1 rin, of Below "?A m Above"]
  obtain m2 where run2: "scanRay Below ?pr ?pc (?L Below) 1 m1 (?A m Above) =
        Inr (m2, ?A m Above \<or> ?A m1 Below)"
    and wf2: "wfGrid m2 maxRow maxCol"
    and ray2: "\<And>j. 1 \<le> j \<Longrightarrow> j \<le> ?L Below \<Longrightarrow>
        rayOf m2 Below ?pr ?pc j = rayTile (rayOf m1 Below ?pr ?pc) (?L Below) 1 j"
    and p2: "tileAt m2 ?pr ?pc = (if ?A m1 Below then TILE_MONSTER else tileAt m1 ?pr ?pc)"
    and fr2: "\<forall>r c. 0 \<le> r \<and> r < maxRow \<and> 0 \<le> c \<and> c < maxCol \<and>
        (\<forall>j. 0 \<le> j \<and> j \<le> ?L Below \<longrightarrow> (r, c) \<noteq> scanned Below ?pr ?pc j) \<longrightarrow>
        tileAt m2 r c = tileAt m1 r c"
    by auto
  from scanRay_whole [OF wf2 rin, of Right "?A m Above \<or> ?A m1 Below"]
  obtain m3 where run3: "scanRay Right ?pr ?pc (?L Right) 1 m2 (?A m Above \<or> ?A m1 Below) =
        Inr (m3, (?A m Above \<or> ?A m1 Below) \<or> ?A m2 Right)"
    and wf3: "wfGrid m3 maxRow maxCol"
    and ray3: "\<And>j. 1 \<le> j \<Longrightarrow> j \<le> ?L Right \<Longrightarrow>
        rayOf m3 Right ?pr ?pc j = rayTile (rayOf m2 Right ?pr ?pc) (?L Right) 1 j"
    and p3: "tileAt m3 ?pr ?pc = (if ?A m2 Right then TILE_MONSTER else tileAt m2 ?pr ?pc)"
    and fr3: "\<forall>r c. 0 \<le> r \<and> r < maxRow \<and> 0 \<le> c \<and> c < maxCol \<and>
        (\<forall>j. 0 \<le> j \<and> j \<le> ?L Right \<longrightarrow> (r, c) \<noteq> scanned Right ?pr ?pc j) \<longrightarrow>
        tileAt m3 r c = tileAt m2 r c"
    by auto
  from scanRay_whole [OF wf3 rin, of Left "(?A m Above \<or> ?A m1 Below) \<or> ?A m2 Right"]
  obtain m4 where run4: "scanRay Left ?pr ?pc (?L Left) 1 m3
          ((?A m Above \<or> ?A m1 Below) \<or> ?A m2 Right) =
        Inr (m4, ((?A m Above \<or> ?A m1 Below) \<or> ?A m2 Right) \<or> ?A m3 Left)"
    and wf4: "wfGrid m4 maxRow maxCol"
    and ray4: "\<And>j. 1 \<le> j \<Longrightarrow> j \<le> ?L Left \<Longrightarrow>
        rayOf m4 Left ?pr ?pc j = rayTile (rayOf m3 Left ?pr ?pc) (?L Left) 1 j"
    and p4: "tileAt m4 ?pr ?pc = (if ?A m3 Left then TILE_MONSTER else tileAt m3 ?pr ?pc)"
    and fr4: "\<forall>r c. 0 \<le> r \<and> r < maxRow \<and> 0 \<le> c \<and> c < maxCol \<and>
        (\<forall>j. 0 \<le> j \<and> j \<le> ?L Left \<longrightarrow> (r, c) \<noteq> scanned Left ?pr ?pc j) \<longrightarrow>
        tileAt m4 r c = tileAt m3 r c"
    by auto
  \<comment> \<open>a loop leaves the cells of the other rays as they are\<close>
  note o1 = other_ray_unchanged [OF fr1 _ _ _ rin]
    and o2 = other_ray_unchanged [OF fr2 _ _ _ rin]
    and o3 = other_ray_unchanged [OF fr3 _ _ _ rin]
    and o4 = other_ray_unchanged [OF fr4 _ _ _ rin]
  have b1: "rayOf m1 Below ?pr ?pc j = ?F Below j" if "1 \<le> j" "j \<le> ?L Below" for j
    using o1 [of Below j] that by simp
  have r2: "rayOf m2 Right ?pr ?pc j = ?F Right j" if "1 \<le> j" "j \<le> ?L Right" for j
    using o1 [of Right j] o2 [of Right j] that by simp
  have l3: "rayOf m3 Left ?pr ?pc j = ?F Left j" if "1 \<le> j" "j \<le> ?L Left" for j
    using o1 [of Left j] o2 [of Left j] o3 [of Left j] that by simp
  have a1: "?A m1 Below = ?A m Below"
    using b1 [of 1] by (auto simp: adv)
  have a2: "?A m2 Right = ?A m Right"
    using r2 [of 1] by (auto simp: adv)
  have a3: "?A m3 Left = ?A m Left"
    using l3 [of 1] by (auto simp: adv)
  have caught: "(((?A m Above \<or> ?A m1 Below) \<or> ?A m2 Right) \<or> ?A m3 Left) =
                  adjacentMonster m maxRow maxCol ?pr ?pc"
    unfolding a1 a2 a3 by (simp add: adjacentMonster_def adv)
  have run: "doMonsterAttack m maxRow maxCol p =
               Inr (adjacentMonster m maxRow maxCol ?pr ?pc, m4)"
    using run1 run2 run3 run4 caught
    by (simp add: doMonsterAttack_def Let_def rayLength_def)
  have rays: "rayOf m4 d ?pr ?pc j = rayTile (?F d) (?L d) 1 j"
    if j: "1 \<le> j" "j \<le> ?L d" for d j
  proof (cases d)
    case Above
    have "rayOf m4 Above ?pr ?pc j = rayOf m1 Above ?pr ?pc j"
      using o2 [of Above j] o3 [of Above j] o4 [of Above j] j Above by simp
    with ray1 [of j] j Above show ?thesis by simp
  next
    case Below
    have "rayOf m4 Below ?pr ?pc j = rayOf m2 Below ?pr ?pc j"
      using o3 [of Below j] o4 [of Below j] j Below by simp
    also have "\<dots> = rayTile (rayOf m1 Below ?pr ?pc) (?L Below) 1 j"
      using ray2 [of j] j Below by simp
    also have "\<dots> = rayTile (?F Below) (?L Below) 1 j"
      using b1 j Below by (intro rayTile_cong) simp_all
    finally show ?thesis using Below by simp
  next
    case Right
    have "rayOf m4 Right ?pr ?pc j = rayOf m3 Right ?pr ?pc j"
      using o4 [of Right j] j Right by simp
    also have "\<dots> = rayTile (rayOf m2 Right ?pr ?pc) (?L Right) 1 j"
      using ray3 [of j] j Right by simp
    also have "\<dots> = rayTile (?F Right) (?L Right) 1 j"
      using r2 j Right by (intro rayTile_cong) simp_all
    finally show ?thesis using Right by simp
  next
    case Left
    have "rayOf m4 Left ?pr ?pc j = rayTile (rayOf m3 Left ?pr ?pc) (?L Left) 1 j"
      using ray4 [of j] j Left by simp
    also have "\<dots> = rayTile (?F Left) (?L Left) 1 j"
      using l3 j Left by (intro rayTile_cong) simp_all
    finally show ?thesis using Left by simp
  qed
  have player: "tileAt m4 ?pr ?pc =
      (if adjacentMonster m maxRow maxCol ?pr ?pc then TILE_MONSTER else tileAt m ?pr ?pc)"
    unfolding caught [symmetric] p4 p3 p2 p1 a1 a2 a3 by simp
  have frame: "tileAt m4 r c = tileAt m r c"
    if "0 \<le> r" "r < maxRow" "0 \<le> c" "c < maxCol"
      and off: "\<forall>d j. 0 \<le> j \<and> j \<le> ?L d \<longrightarrow> (r, c) \<noteq> scanned d ?pr ?pc j" for r c
  proof -
    have "tileAt m4 r c = tileAt m3 r c" using fr4 that by blast
    also have "\<dots> = tileAt m2 r c" using fr3 that by blast
    also have "\<dots> = tileAt m1 r c" using fr2 that by blast
    also have "\<dots> = tileAt m r c" using fr1 that by blast
    finally show ?thesis .
  qed
  from run wf4 rays player frame show ?thesis by blast
qed

lemma cell_cases:
  obtains (player) "r = pRow" "c = pCol"
  | (ray) d j where "1 \<le> j" "j \<le> rayLength d maxRow maxCol pRow pCol"
      "(r, c) = scanned d pRow pCol j"
  | (off) "\<forall>d j. 0 \<le> j \<and> j \<le> rayLength d maxRow maxCol pRow pCol \<longrightarrow>
             (r, c) \<noteq> scanned d pRow pCol j"
proof (cases "\<exists>d j. 0 \<le> j \<and> j \<le> rayLength d maxRow maxCol pRow pCol \<and>
                (r, c) = scanned d pRow pCol j")
  case True
  then obtain d j where dj: "0 \<le> j" "j \<le> rayLength d maxRow maxCol pRow pCol"
    "(r, c) = scanned d pRow pCol j" by blast
  show ?thesis
  proof (cases "j = 0")
    case True
    with dj(3) have "r = pRow" "c = pCol" by (simp_all add: scanned_0)
    then show ?thesis by (rule player)
  next
    case False
    with dj(1) have "1 \<le> j" by simp
    then show ?thesis using dj(2,3) by (rule ray)
  qed
next
  case False
  then show ?thesis by (intro off) blast
qed

lemma advances_blocked:
  "f k = TILE_PILLAR \<Longrightarrow> i \<le> k \<Longrightarrow> k < x \<Longrightarrow> \<not> advances f len i x"
  by (auto simp: advances_def reaches_def)

lemma advances_upto:
  "(\<And>j. i \<le> j \<Longrightarrow> j \<le> x \<Longrightarrow> g j = f j) \<Longrightarrow> advances g len i x = advances f len i x"
  by (auto simp: advances_def reaches_def)

lemma rayTile_pillar:
  assumes "f j = TILE_PILLAR" and "i \<le> j"
  shows "rayTile f len i j = TILE_PILLAR"
proof -
  have "\<not> advances f len i (j + 1)"
    using assms by (intro advances_blocked [of f j]) simp_all
  moreover have "\<not> advances f len i j"
    using assms(1) by (simp add: advances_def tile_defs)
  ultimately show ?thesis using assms(1) by (simp add: rayTile_def)
qed

lemma rayTile_upto_pillar:
  assumes same: "\<And>j. i \<le> j \<Longrightarrow> j \<le> k \<Longrightarrow> g j = f j"
    and pil: "f k = TILE_PILLAR" and j: "i \<le> j" "j \<le> k"
  shows "rayTile g len i j = rayTile f len i j"
proof (cases "j = k")
  case True
  have "g k = TILE_PILLAR" using same [of k] pil j by simp
  with pil True j show ?thesis by (simp add: rayTile_pillar)
next
  case False
  with j have "j + 1 \<le> k" by simp
  then have "advances g len i (j + 1) = advances f len i (j + 1)"
    using same by (intro advances_upto) simp
  moreover have "advances g len i j = advances f len i j"
    using same j by (intro advances_upto) simp
  ultimately show ?thesis using same [of j] j by (simp add: rayTile_def)
qed

lemma monster_pillars_stay:
  assumes rays: "\<And>d j. 1 \<le> j \<Longrightarrow> j \<le> rayLength d maxRow maxCol pRow pCol \<Longrightarrow>
        rayOf m' d pRow pCol j =
          rayTile (rayOf m d pRow pCol) (rayLength d maxRow maxCol pRow pCol) 1 j"
    and frame: "\<And>r c. 0 \<le> r \<Longrightarrow> r < maxRow \<Longrightarrow> 0 \<le> c \<Longrightarrow> c < maxCol \<Longrightarrow>
        (\<forall>d j. 0 \<le> j \<and> j \<le> rayLength d maxRow maxCol pRow pCol \<longrightarrow>
           (r, c) \<noteq> scanned d pRow pCol j) \<Longrightarrow> tileAt m' r c = tileAt m r c"
    and inb: "0 \<le> r" "r < maxRow" "0 \<le> c" "c < maxCol"
    and np: "(r, c) \<noteq> (pRow, pCol)"
    and pil: "tileAt m r c = TILE_PILLAR"
  shows "tileAt m' r c = TILE_PILLAR"
proof (cases rule: cell_cases [where r = r and c = c and pRow = pRow and pCol = pCol
      and maxRow = maxRow and maxCol = maxCol])
  case player
  with np show ?thesis by simp
next
  case (ray d j)
  from ray(3) have rc: "r = fst (scanned d pRow pCol j)" "c = snd (scanned d pRow pCol j)"
    by (simp_all add: prod_eq_iff)
  from pil have "rayOf m d pRow pCol j = TILE_PILLAR" by (simp add: rayOf_def rc)
  then have "rayTile (rayOf m d pRow pCol) (rayLength d maxRow maxCol pRow pCol) 1 j =
      TILE_PILLAR"
    using ray(1) by (rule rayTile_pillar)
  with rays [OF ray(1,2)] show ?thesis by (simp add: rayOf_def rc)
next
  case off
  with frame [OF inb] pil show ?thesis by simp
qed

lemma monster_beyond_pillar_unread:
  assumes wf: "wfGrid m maxRow maxCol" and wf2: "wfGrid m2 maxRow maxCol"
    and pr: "0 \<le> row p" "row p < maxRow" and pc: "0 \<le> col p" "col p < maxCol"
    and k: "1 \<le> k" "k \<le> rayLength d maxRow maxCol (row p) (col p)"
    and pil: "rayOf m d (row p) (col p) k = TILE_PILLAR"
    and same: "\<And>r c. 0 \<le> r \<Longrightarrow> r < maxRow \<Longrightarrow> 0 \<le> c \<Longrightarrow> c < maxCol \<Longrightarrow>
        (\<forall>j. k < j \<and> j \<le> rayLength d maxRow maxCol (row p) (col p) \<longrightarrow>
           (r, c) \<noteq> scanned d (row p) (col p) j) \<Longrightarrow> tileAt m2 r c = tileAt m r c"
    and run: "doMonsterAttack m maxRow maxCol p = Inr (e, m')"
  shows "\<exists>m2'. doMonsterAttack m2 maxRow maxCol p = Inr (e, m2') \<and>
           (\<forall>r c. 0 \<le> r \<and> r < maxRow \<and> 0 \<le> c \<and> c < maxCol \<and>
              (\<forall>j. k < j \<and> j \<le> rayLength d maxRow maxCol (row p) (col p) \<longrightarrow>
                 (r, c) \<noteq> scanned d (row p) (col p) j) \<longrightarrow>
              tileAt m2' r c = tileAt m' r c)"
proof -
  let ?pr = "row p" and ?pc = "col p"
  let ?L = "\<lambda>d. rayLength d maxRow maxCol ?pr ?pc"
  let ?adj = "\<lambda>m. adjacentMonster m maxRow maxCol ?pr ?pc"
  have rin: "rayIn d' ?pr ?pc (?L d') maxRow maxCol" for d'
    using pr pc by (rule rayIn_rayLength)
  from doMonsterAttack_spec [OF wf pr pc] run
  have e: "e = ?adj m"
    and rays: "\<And>d j. 1 \<le> j \<Longrightarrow> j \<le> ?L d \<Longrightarrow>
        rayOf m' d ?pr ?pc j = rayTile (rayOf m d ?pr ?pc) (?L d) 1 j"
    and player: "tileAt m' ?pr ?pc = (if ?adj m then TILE_MONSTER else tileAt m ?pr ?pc)"
    and frame: "\<And>r c. 0 \<le> r \<Longrightarrow> r < maxRow \<Longrightarrow> 0 \<le> c \<Longrightarrow> c < maxCol \<Longrightarrow>
        (\<forall>d j. 0 \<le> j \<and> j \<le> ?L d \<longrightarrow> (r, c) \<noteq> scanned d ?pr ?pc j) \<Longrightarrow>
        tileAt m' r c = tileAt m r c"
    by auto
  from doMonsterAttack_spec [OF wf2 pr pc]
  obtain m2' where run2: "doMonsterAttack m2 maxRow maxCol p = Inr (?adj m2, m2')"
    and rays2: "\<And>d j. 1 \<le> j \<Longrightarrow> j \<le> ?L d \<Longrightarrow>
        rayOf m2' d ?pr ?pc j = rayTile (rayOf m2 d ?pr ?pc) (?L d) 1 j"
    and player2: "tileAt m2' ?pr ?pc = (if ?adj m2 then TILE_MONSTER else tileAt m2 ?pr ?pc)"
    and frame2: "\<And>r c. 0 \<le> r \<Longrightarrow> r < maxRow \<Longrightarrow> 0 \<le> c \<Longrightarrow> c < maxCol \<Longrightarrow>
        (\<forall>d j. 0 \<le> j \<and> j \<le> ?L d \<longrightarrow> (r, c) \<noteq> scanned d ?pr ?pc j) \<Longrightarrow>
        tileAt m2' r c = tileAt m2 r c"
    by blast
  \<comment> \<open>the two maps agree on the other rays, and on this ray up to the pillar\<close>
  have other: "rayOf m2 d' ?pr ?pc j = rayOf m d' ?pr ?pc j"
    if "d' \<noteq> d" "1 \<le> j" "j \<le> ?L d'" for d' j
  proof -
    let ?r = "fst (scanned d' ?pr ?pc j)" and ?c = "snd (scanned d' ?pr ?pc j)"
    have inb: "0 \<le> ?r" "?r < maxRow" "0 \<le> ?c" "?c < maxCol"
      using rin [of d'] that by (simp_all add: rayIn_def)
    have "(?r, ?c) \<noteq> scanned d ?pr ?pc j'" if "k < j'" for j'
      using scanned_disjoint [OF \<open>d' \<noteq> d\<close> \<open>1 \<le> j\<close>, of j' ?pr ?pc] that k by simp
    with same [OF inb] show ?thesis by (simp add: rayOf_def)
  qed
  have this_ray: "rayOf m2 d ?pr ?pc j = rayOf m d ?pr ?pc j" if "0 \<le> j" "j \<le> k" for j
  proof -
    let ?r = "fst (scanned d ?pr ?pc j)" and ?c = "snd (scanned d ?pr ?pc j)"
    have inb: "0 \<le> ?r" "?r < maxRow" "0 \<le> ?c" "?c < maxCol"
      using rin [of d] that k by (simp_all add: rayIn_def)
    have "(?r, ?c) \<noteq> scanned d ?pr ?pc j'" if "k < j'" for j'
      using scanned_inj [of d ?pr ?pc j j'] that \<open>j \<le> k\<close> by simp
    with same [OF inb] show ?thesis by (simp add: rayOf_def)
  qed
  have first: "rayOf m2 d' ?pr ?pc 1 = rayOf m d' ?pr ?pc 1" if "1 \<le> ?L d'" for d'
    using other [of d' 1] this_ray [of 1] that k by (cases "d' = d") simp_all
  have adj: "?adj m2 = ?adj m"
    using first by (auto simp: adjacentMonster_def)
  have cells: "tileAt m2' r c = tileAt m' r c"
    if inb: "0 \<le> r" "r < maxRow" "0 \<le> c" "c < maxCol"
      and notB: "\<forall>j. k < j \<and> j \<le> ?L d \<longrightarrow> (r, c) \<noteq> scanned d ?pr ?pc j" for r c
  proof (cases rule: cell_cases [where r = r and c = c and pRow = ?pr and pCol = ?pc
        and maxRow = maxRow and maxCol = maxCol])
    case player
    have "tileAt m2 ?pr ?pc = tileAt m ?pr ?pc"
      using this_ray [of 0] k by (simp add: rayOf_def scanned_0)
    with player player2 \<open>tileAt m' ?pr ?pc = _\<close> adj show ?thesis by simp
  next
    case (ray d' j)
    from ray(3) have rc: "r = fst (scanned d' ?pr ?pc j)" "c = snd (scanned d' ?pr ?pc j)"
      by (simp_all add: prod_eq_iff)
    have "rayTile (rayOf m2 d' ?pr ?pc) (?L d') 1 j = rayTile (rayOf m d' ?pr ?pc) (?L d') 1 j"
    proof (cases "d' = d")
      case False
      then show ?thesis using other ray(1,2) by (intro rayTile_cong) simp_all
    next
      case True
      have "j \<le> k"
      proof (rule ccontr)
        assume nk: "\<not> j \<le> k"
        from notB have "k < j \<and> j \<le> ?L d \<longrightarrow> (r, c) \<noteq> scanned d ?pr ?pc j"
          by blast
        with nk ray(2,3) True show False by simp
      qed
      then show ?thesis
        unfolding True using this_ray pil ray(1) by (intro rayTile_upto_pillar [of 1 k]) simp_all
    qed
    with rays [OF ray(1,2)] rays2 [OF ray(1,2)] show ?thesis
      by (simp add: rayOf_def rc)
  next
    case off
    have "tileAt m2 r c = tileAt m r c"
      using same [OF inb] notB by simp
    with frame [OF inb off] frame2 [OF inb off] show ?thesis by simp
  qed
  from run2 adj e cells show ?thesis by auto
qed

lemma rayTile_player: "rayTile f len i j = TILE_PLAYER \<Longrightarrow> f j = TILE_PLAYER"
  by (auto simp: rayTile_def tile_defs split: if_splits)

lemma monster_keeps_player:
  assumes v: "validState m maxRow maxCol p"
  shows "\<exists>e m'. doMonsterAttack m maxRow maxCol p = Inr (e, m') \<and>
           e = adjacentMonster m maxRow maxCol (row p) (col p) \<and>
           wfGrid m' maxRow maxCol \<and>
           (e \<longrightarrow> tileAt m' (row p) (col p) = TILE_MONSTER \<and> playerCount m' = 0) \<and>
           (\<not> e \<longrightarrow> validState m' maxRow maxCol p)"
proof -
  let ?pr = "row p" and ?pc = "col p"
  let ?L = "\<lambda>d. rayLength d maxRow maxCol ?pr ?pc"
  let ?adj = "adjacentMonster m maxRow maxCol ?pr ?pc"
  from v have wf: "wfGrid m maxRow maxCol"
    and pr: "0 \<le> ?pr" "?pr < maxRow" and pc: "0 \<le> ?pc" "?pc < maxCol"
    and one: "playerCount m = 1 \<and> tileAt m ?pr ?pc = TILE_PLAYER"
    by (simp_all add: validState_def)
  from one playerCount_1 [OF wf pr pc]
  have uniq: "\<And>r c. 0 \<le> r \<Longrightarrow> r < maxRow \<Longrightarrow> 0 \<le> c \<Longrightarrow> c < maxCol \<Longrightarrow>
      (tileAt m r c = TILE_PLAYER) = (r = ?pr \<and> c = ?pc)"
    by simp
  have rin: "rayIn d ?pr ?pc (?L d) maxRow maxCol" for d
    using pr pc by (rule rayIn_rayLength)
  from doMonsterAttack_spec [OF wf pr pc]
  obtain m' where run: "doMonsterAttack m maxRow maxCol p = Inr (?adj, m')"
    and wf': "wfGrid m' maxRow maxCol"
    and rays: "\<And>d j. 1 \<le> j \<Longrightarrow> j \<le> ?L d \<Longrightarrow>
        rayOf m' d ?pr ?pc j = rayTile (rayOf m d ?pr ?pc) (?L d) 1 j"
    and player: "tileAt m' ?pr ?pc = (if ?adj then TILE_MONSTER else tileAt m ?pr ?pc)"
    and frame: "\<And>r c. 0 \<le> r \<Longrightarrow> r < maxRow \<Longrightarrow> 0 \<le> c \<Longrightarrow> c < maxCol \<Longrightarrow>
        (\<forall>d j. 0 \<le> j \<and> j \<le> ?L d \<longrightarrow> (r, c) \<noteq> scanned d ?pr ?pc j) \<Longrightarrow>
        tileAt m' r c = tileAt m r c"
    by blast
  have others: "tileAt m' r c \<noteq> TILE_PLAYER"
    if inb: "0 \<le> r" "r < maxRow" "0 \<le> c" "c < maxCol" and ne: "\<not> (r = ?pr \<and> c = ?pc)" for r c
  proof (cases rule: cell_cases [where r = r and c = c and pRow = ?pr and pCol = ?pc
        and maxRow = maxRow and maxCol = maxCol])
    case player
    with ne show ?thesis by simp
  next
    case (ray d j)
    from ray(3) have rc: "r = fst (scanned d ?pr ?pc j)" "c = snd (scanned d ?pr ?pc j)"
      by (simp_all add: prod_eq_iff)
    have "rayOf m d ?pr ?pc j \<noteq> TILE_PLAYER"
      using uniq [OF inb] ne by (simp add: rayOf_def rc)
    then have "rayTile (rayOf m d ?pr ?pc) (?L d) 1 j \<noteq> TILE_PLAYER"
      using rayTile_player by blast
    with rays [OF ray(1,2)] show ?thesis by (simp add: rayOf_def rc)
  next
    case off
    with frame [OF inb] uniq [OF inb] ne show ?thesis by simp
  qed
  have caught: "tileAt m' ?pr ?pc = TILE_MONSTER \<and> playerCount m' = 0" if "?adj"
  proof -
    from player that have pm: "tileAt m' ?pr ?pc = TILE_MONSTER" by simp
    have "tileAt m' r c \<noteq> TILE_PLAYER"
      if "0 \<le> r" "r < maxRow" "0 \<le> c" "c < maxCol" for r c
      using others [OF that] pm by (cases "r = ?pr \<and> c = ?pc") (auto simp: tile_defs)
    with playerCount_0 [OF wf'] pm show ?thesis by simp
  qed
  have free: "validState m' maxRow maxCol p" if "\<not> ?adj"
  proof -
    from player that one have pp: "tileAt m' ?pr ?pc = TILE_PLAYER" by simp
    have "(tileAt m' r c = TILE_PLAYER) = (r = ?pr \<and> c = ?pc)"
      if "0 \<le> r" "r < maxRow" "0 \<le> c" "c < maxCol" for r c
      using others [OF that] pp by auto
    with playerCount_1 [OF wf' pr pc] have "playerCount m' = 1 \<and> tileAt m' ?pr ?pc = TILE_PLAYER"
      by simp
    with wf' pr pc show ?thesis by (simp add: validState_def)
  qed
  from run wf' caught free show ?thesis by blast
qed

section \<open>Facts about doPlayerMove\<close>

lemma relocate_valid:
  assumes v: "validState m maxRow maxCol p"
    and nx: "0 \<le> nextRow" "nextRow < maxRow" "0 \<le> nextCol" "nextCol < maxCol"
    and np: "tileAt m nextRow nextCol \<noteq> TILE_PLAYER"
    and q: "row q = row p" "col q = col p"
  shows "\<exists>m'. relocate m q (row p) (col p) nextRow nextCol =
                 Inr (m', q\<lparr>row := nextRow, col := nextCol\<rparr>) \<and>
              validState m' maxRow maxCol (q\<lparr>row := nextRow, col := nextCol\<rparr>)"
proof -
  let ?pr = "row p" and ?pc = "col p"
  from v have wf: "wfGrid m maxRow maxCol"
    and pr: "0 \<le> ?pr" "?pr < maxRow" and pc: "0 \<le> ?pc" "?pc < maxCol"
    and one: "playerCount m = 1 \<and> tileAt m ?pr ?pc = TILE_PLAYER"
    by (simp_all add: validState_def)
  from one playerCount_1 [OF wf pr pc]
  have uniq: "\<And>r c. 0 \<le> r \<Longrightarrow> r < maxRow \<Longrightarrow> 0 \<le> c \<Longrightarrow> c < maxCol \<Longrightarrow>
      (tileAt m r c = TILE_PLAYER) = (r = ?pr \<and> c = ?pc)"
    by simp
  let ?m1 = "setTile m nextRow nextCol TILE_PLAYER"
  let ?m2 = "setTile ?m1 ?pr ?pc TILE_OPEN"
  have wf1: "wfGrid ?m1 maxRow maxCol" using wf by (rule wfGrid_setTile)
  have wf2: "wfGrid ?m2 maxRow maxCol" using wf1 by (rule wfGrid_setTile)
  have ne: "\<not> (nextRow = ?pr \<and> nextCol = ?pc)" using np one by auto
  have rel: "relocate m q ?pr ?pc nextRow nextCol = Inr (?m2, q\<lparr>row := nextRow, col := nextCol\<rparr>)"
    using wf wf1 nx pr pc by (simp add: relocate_def writeTile_wf)
  have t2: "tileAt ?m2 r c =
              (if r = ?pr \<and> c = ?pc then TILE_OPEN
               else if r = nextRow \<and> c = nextCol then TILE_PLAYER else tileAt m r c)"
    if "0 \<le> r" "r < maxRow" "0 \<le> c" "c < maxCol" for r c
    using that wf wf1 pr pc nx
    by (simp add: tileAt_setTile [OF wf1] tileAt_setTile [OF wf])
  have "(tileAt ?m2 r c = TILE_PLAYER) = (r = nextRow \<and> c = nextCol)"
    if "0 \<le> r" "r < maxRow" "0 \<le> c" "c < maxCol" for r c
    using t2 [OF that] uniq [OF that] ne by (auto simp: tile_defs)
  with playerCount_1 [OF wf2 nx]
  have "playerCount ?m2 = 1 \<and> tileAt ?m2 nextRow nextCol = TILE_PLAYER" by simp
  with wf2 nx have "validState ?m2 maxRow maxCol (q\<lparr>row := nextRow, col := nextCol\<rparr>)"
    by (simp add: validState_def)
  with rel show ?thesis by blast
qed

lemma move_keeps_valid:
  assumes v: "validState m maxRow maxCol p"
  shows "(\<exists>st m' p'. doPlayerMove m maxRow maxCol p nextRow nextCol = Inr (st, m', p') \<and>
            validState m' maxRow maxCol p') \<or>
         (doPlayerMove m maxRow maxCol p nextRow nextCol = Inl SignedOverflow \<and>
            INT32_MAX \<le> treasure p)"
proof (cases "nextRow \<ge> maxRow \<or> nextCol \<ge> maxCol \<or> nextRow < 0 \<or> nextCol < 0")
  case True
  then have "doPlayerMove m maxRow maxCol p nextRow nextCol = Inr (STATUS_STAY, m, p)"
    by (auto simp: doPlayerMove_def Let_def)
  with v show ?thesis by blast
next
  case False
  then have nx: "0 \<le> nextRow" "nextRow < maxRow" "0 \<le> nextCol" "nextCol < maxCol"
    by auto
  from v have wf: "wfGrid m maxRow maxCol" by (simp add: validState_def)
  let ?t = "tileAt m nextRow nextCol"
  have rd: "readTile m nextRow nextCol = Inr ?t"
    using wf nx by (simp add: readTile_wf)
  have v': "validState m maxRow maxCol (p\<lparr>treasure := treasure p + 1\<rparr>)"
    using v by (simp add: validState_def)
  show ?thesis
  proof (cases "?t = TILE_PLAYER")
    case True
    then have "doPlayerMove m maxRow maxCol p nextRow nextCol = Inr (0, m, p)"
      using nx rd by (simp add: doPlayerMove_def Let_def tile_defs)
    with v show ?thesis by blast
  next
    case np: False
    from relocate_valid [OF v nx np, of p]
    obtain m1 where r1: "relocate m p (row p) (col p) nextRow nextCol =
          Inr (m1, p\<lparr>row := nextRow, col := nextCol\<rparr>)"
      and v1: "validState m1 maxRow maxCol (p\<lparr>row := nextRow, col := nextCol\<rparr>)"
      by auto
    from relocate_valid [OF v nx np, of "p\<lparr>treasure := treasure p + 1\<rparr>"]
    obtain m2 where r2: "relocate m (p\<lparr>treasure := treasure p + 1\<rparr>) (row p) (col p)
          nextRow nextCol =
          Inr (m2, p\<lparr>treasure := treasure p + 1, row := nextRow, col := nextCol\<rparr>)"
      and v2: "validState m2 maxRow maxCol
          (p\<lparr>treasure := treasure p + 1, row := nextRow, col := nextCol\<rparr>)"
      by auto
    show ?thesis
      using nx rd r1 r2 v v1 v2
      by (auto simp: doPlayerMove_def Let_def)
  qed
qed

section \<open>Facts about createMap and resizeMap\<close>

declare copyCols.simps [simp del] copyRows.simps [simp del]

lemma copyCols_spec:
  "wfGrid newMap maxRow2 maxCol2 \<Longrightarrow> wfGrid oldMap originalRow originalCol \<Longrightarrow>
   0 \<le> r \<Longrightarrow> r < originalRow \<Longrightarrow> 0 \<le> c \<Longrightarrow>
   0 \<le> rowOff \<Longrightarrow> r + rowOff < maxRow2 \<Longrightarrow> 0 \<le> colOff \<Longrightarrow> originalCol + colOff \<le> maxCol2 \<Longrightarrow>
   \<exists>n'. copyCols newMap oldMap originalCol rowOff colOff blank r c = Inr n' \<and>
        wfGrid n' maxRow2 maxCol2 \<and>
        (\<forall>i j. 0 \<le> i \<and> i < maxRow2 \<and> 0 \<le> j \<and> j < maxCol2 \<longrightarrow>
           tileAt n' i j =
             (if i = r + rowOff \<and> c + colOff \<le> j \<and> j < originalCol + colOff
              then blanked blank (tileAt oldMap r (j - colOff))
              else tileAt newMap i j))"
proof (induction newMap oldMap originalCol rowOff colOff blank r c rule: copyCols.induct)
  case (1 newMap oldMap originalCol rowOff colOff blank r c)
  note wfn = \<open>wfGrid newMap maxRow2 maxCol2\<close> and wfo = \<open>wfGrid oldMap originalRow originalCol\<close>
  note bounds = \<open>0 \<le> r\<close> \<open>r < originalRow\<close> \<open>0 \<le> c\<close> \<open>0 \<le> rowOff\<close> \<open>r + rowOff < maxRow2\<close>
    \<open>0 \<le> colOff\<close> \<open>originalCol + colOff \<le> maxCol2\<close>
  show ?case
  proof (cases "c < originalCol")
    case False
    then have "copyCols newMap oldMap originalCol rowOff colOff blank r c = Inr newMap"
      by (subst copyCols.simps) simp
    with wfn False show ?thesis by auto
  next
    case True
    define t where "t = tileAt oldMap r c"
    define n1 where "n1 = setTile newMap (r + rowOff) (c + colOff) t"
    define n2 where "n2 = setTile n1 (r + rowOff) (c + colOff) TILE_OPEN"
    define nx where "nx = (if blank \<and> t = TILE_PLAYER then n2 else n1)"
    have tgt: "0 \<le> r + rowOff" "r + rowOff < maxRow2" "0 \<le> c + colOff" "c + colOff < maxCol2"
      using bounds True by simp_all
    have rd: "readTile oldMap r c = Inr t"
      using wfo bounds True by (simp add: readTile_wf t_def)
    have wf1: "wfGrid n1 maxRow2 maxCol2" unfolding n1_def using wfn by (rule wfGrid_setTile)
    have wf2: "wfGrid n2 maxRow2 maxCol2" unfolding n2_def using wf1 by (rule wfGrid_setTile)
    have w1: "writeTile newMap (r + rowOff) (c + colOff) t = Inr n1"
      using wfn tgt by (simp add: writeTile_wf n1_def)
    have w2: "writeTile n1 (r + rowOff) (c + colOff) TILE_OPEN = Inr n2"
      using wf1 tgt by (simp add: writeTile_wf n2_def)
    have wfx: "wfGrid nx maxRow2 maxCol2"
      using wf1 wf2 by (simp add: nx_def)
    have tx: "tileAt nx i j =
        (if i = r + rowOff \<and> j = c + colOff then blanked blank t else tileAt newMap i j)"
      if "0 \<le> i" "i < maxRow2" "0 \<le> j" "j < maxCol2" for i j
    proof -
      have t1: "tileAt n1 i j = (if i = r + rowOff \<and> j = c + colOff then t else tileAt newMap i j)"
        unfolding n1_def using tileAt_setTile [OF wfn tgt that] .
      have t2: "tileAt n2 i j =
          (if i = r + rowOff \<and> j = c + colOff then TILE_OPEN else tileAt n1 i j)"
        unfolding n2_def using tileAt_setTile [OF wf1 tgt that] .
      show ?thesis
        using t1 t2 by (auto simp: nx_def blanked_def)
    qed
    have run: "copyCols newMap oldMap originalCol rowOff colOff blank r c =
        copyCols nx oldMap originalCol rowOff colOff blank r (c + 1)"
      using True rd w1 w2 by (subst copyCols.simps) (simp add: nx_def)
    have "\<exists>n'. copyCols nx oldMap originalCol rowOff colOff blank r (c + 1) = Inr n' \<and>
        wfGrid n' maxRow2 maxCol2 \<and>
        (\<forall>i j. 0 \<le> i \<and> i < maxRow2 \<and> 0 \<le> j \<and> j < maxCol2 \<longrightarrow>
           tileAt n' i j =
             (if i = r + rowOff \<and> c + 1 + colOff \<le> j \<and> j < originalCol + colOff
              then blanked blank (tileAt oldMap r (j - colOff))
              else tileAt nx i j))"
    proof (cases "blank \<and> t = TILE_PLAYER")
      case b: True
      then have nx: "nx = n2" unfolding nx_def by (rule if_P)
      show ?thesis
        unfolding nx by (rule "1.IH"(1) [OF True rd w1 b w2 wf2 wfo]) (use bounds in simp_all)
    next
      case b: False
      then have nx: "nx = n1" unfolding nx_def by (rule if_not_P)
      show ?thesis
        unfolding nx by (rule "1.IH"(2) [OF True rd w1 b wf1 wfo]) (use bounds in simp_all)
    qed
    then obtain n' where n': "copyCols nx oldMap originalCol rowOff colOff blank r (c + 1) = Inr n'"
      and wf': "wfGrid n' maxRow2 maxCol2"
      and t': "\<And>i j. 0 \<le> i \<Longrightarrow> i < maxRow2 \<Longrightarrow> 0 \<le> j \<Longrightarrow> j < maxCol2 \<Longrightarrow>
           tileAt n' i j =
             (if i = r + rowOff \<and> c + 1 + colOff \<le> j \<and> j < originalCol + colOff
              then blanked blank (tileAt oldMap r (j - colOff))
              else tileAt nx i j)"
      by blast
    have "tileAt n' i j =
             (if i = r + rowOff \<and> c + colOff \<le> j \<and> j < originalCol + colOff
              then blanked blank (tileAt oldMap r (j - colOff))
              else tileAt newMap i j)"
      if "0 \<le> i" "i < maxRow2" "0 \<le> j" "j < maxCol2" for i j
      using t' [OF that] tx [OF that] True by (auto simp: t_def)
    with run n' wf' show ?thesis by auto
  qed
qed

lemma copyRows_spec:
  "wfGrid newMap maxRow2 maxCol2 \<Longrightarrow> wfGrid oldMap originalRow originalCol \<Longrightarrow>
   0 \<le> r \<Longrightarrow> 0 \<le> rowOff \<Longrightarrow> originalRow + rowOff \<le> maxRow2 \<Longrightarrow>
   0 \<le> colOff \<Longrightarrow> originalCol + colOff \<le> maxCol2 \<Longrightarrow>
   \<exists>n'. copyRows newMap oldMap originalRow originalCol rowOff colOff blank r = Inr n' \<and>
        wfGrid n' maxRow2 maxCol2 \<and>
        (\<forall>i j. 0 \<le> i \<and> i < maxRow2 \<and> 0 \<le> j \<and> j < maxCol2 \<longrightarrow>
           tileAt n' i j =
             (if r + rowOff \<le> i \<and> i < originalRow + rowOff \<and>
                 colOff \<le> j \<and> j < originalCol + colOff
              then blanked blank (tileAt oldMap (i - rowOff) (j - colOff))
              else tileAt newMap i j))"
proof (induction newMap oldMap originalRow originalCol rowOff colOff blank r
    rule: copyRows.induct)
  case (1 newMap oldMap originalRow originalCol rowOff colOff blank r)
  note wfn = \<open>wfGrid newMap maxRow2 maxCol2\<close> and wfo = \<open>wfGrid oldMap originalRow originalCol\<close>
  note bounds = \<open>0 \<le> r\<close> \<open>0 \<le> rowOff\<close> \<open>originalRow + rowOff \<le> maxRow2\<close>
    \<open>0 \<le> colOff\<close> \<open>originalCol + colOff \<le> maxCol2\<close>
  show ?case
  proof (cases "r < originalRow")
    case False
    then have "copyRows newMap oldMap originalRow originalCol rowOff colOff blank r = Inr newMap"
      by (subst copyRows.simps) simp
    with wfn False show ?thesis by auto
  next
    case True
    from copyCols_spec [OF wfn wfo \<open>0 \<le> r\<close> True _ \<open>0 \<le> rowOff\<close> _ \<open>0 \<le> colOff\<close>
        \<open>originalCol + colOff \<le> maxCol2\<close>, of 0 blank] True bounds
    obtain n1 where c1: "copyCols newMap oldMap originalCol rowOff colOff blank r 0 = Inr n1"
      and wf1: "wfGrid n1 maxRow2 maxCol2"
      and t1: "\<And>i j. 0 \<le> i \<Longrightarrow> i < maxRow2 \<Longrightarrow> 0 \<le> j \<Longrightarrow> j < maxCol2 \<Longrightarrow>
           tileAt n1 i j =
             (if i = r + rowOff \<and> colOff \<le> j \<and> j < originalCol + colOff
              then blanked blank (tileAt oldMap r (j - colOff))
              else tileAt newMap i j)"
      by auto
    have run: "copyRows newMap oldMap originalRow originalCol rowOff colOff blank r =
        copyRows n1 oldMap originalRow originalCol rowOff colOff blank (r + 1)"
      using True c1 by (subst copyRows.simps) simp
    from "1.IH" [OF True c1 wf1 wfo] bounds
    obtain n' where n': "copyRows n1 oldMap originalRow originalCol rowOff colOff blank (r + 1) =
          Inr n'"
      and wf': "wfGrid n' maxRow2 maxCol2"
      and t': "\<And>i j. 0 \<le> i \<Longrightarrow> i < maxRow2 \<Longrightarrow> 0 \<le> j \<Longrightarrow> j < maxCol2 \<Longrightarrow>
           tileAt n' i j =
             (if r + 1 + rowOff \<le> i \<and> i < originalRow + rowOff \<and>
                 colOff \<le> j \<and> j < originalCol + colOff
              then blanked blank (tileAt oldMap (i - rowOff) (j - colOff))
              else tileAt n1 i j)"
      by auto
    have "tileAt n' i j =
             (if r + rowOff \<le> i \<and> i < originalRow + rowOff \<and>
                 colOff \<le> j \<and> j < originalCol + colOff
              then blanked blank (tileAt oldMap (i - rowOff) (j - colOff))
              else tileAt newMap i j)"
      if "0 \<le> i" "i < maxRow2" "0 \<le> j" "j < maxCol2" for i j
      using t' [OF that] t1 [OF that] True by auto
    with run n' wf' show ?thesis by auto
  qed
qed

lemma div_less_iff_less_mult:
  fixes a b M :: int
  assumes "0 < b"
  shows "(M div b < a) = (M < a * b)"
proof -
  have eq: "M = (M div b) * b + M mod b" by simp
  have lo: "0 \<le> M mod b" and hi: "M mod b < b" using assms by simp_all
  show ?thesis
  proof
    assume "M div b < a"
    then have "M div b + 1 \<le> a" by simp
    then have "(M div b + 1) * b \<le> a * b" using assms by (simp add: mult_right_mono)
    then have "(M div b) * b + b \<le> a * b" by (simp add: algebra_simps)
    with eq hi show "M < a * b" by linarith
  next
    assume less: "M < a * b"
    show "M div b < a"
    proof (rule ccontr)
      assume "\<not> M div b < a"
      then have "a \<le> M div b" by simp
      then have "a * b \<le> (M div b) * b" using assms by (simp add: mult_right_mono)
      with eq lo less show False by linarith
    qed
  qed
qed

lemma copyAll_spec:
  assumes wfn: "wfGrid new0 (originalRow * 2) (originalCol * 2)"
    and wfo: "wfGrid oldMap originalRow originalCol"
    and pos: "0 \<le> originalRow" "0 \<le> originalCol"
  shows "\<exists>n4. copyAll new0 oldMap originalRow originalCol = Inr n4 \<and>
           wfGrid n4 (originalRow * 2) (originalCol * 2) \<and>
           (\<forall>i j. 0 \<le> i \<and> i < originalRow \<and> 0 \<le> j \<and> j < originalCol \<longrightarrow>
              tileAt n4 i j = tileAt oldMap i j \<and>
              tileAt n4 (i + originalRow) j = blanked True (tileAt oldMap i j) \<and>
              tileAt n4 i (j + originalCol) = blanked True (tileAt oldMap i j) \<and>
              tileAt n4 (i + originalRow) (j + originalCol) = blanked True (tileAt oldMap i j))"
proof -
  let ?R = originalRow and ?C = originalCol
  let ?R2 = "originalRow * 2" and ?C2 = "originalCol * 2"
  from copyRows_spec [OF wfn wfo, of 0 0 0 False] pos
  obtain n1 where c1: "copyRows new0 oldMap ?R ?C 0 0 False 0 = Inr n1"
    and wf1: "wfGrid n1 ?R2 ?C2"
    and t1: "\<And>i j. 0 \<le> i \<Longrightarrow> i < ?R2 \<Longrightarrow> 0 \<le> j \<Longrightarrow> j < ?C2 \<Longrightarrow>
        tileAt n1 i j =
          (if i < ?R \<and> j < ?C then tileAt oldMap i j else tileAt new0 i j)"
    by (auto simp: blanked_def)
  from copyRows_spec [OF wf1 wfo, of 0 ?R 0 True] pos
  obtain n2 where c2: "copyRows n1 oldMap ?R ?C ?R 0 True 0 = Inr n2"
    and wf2: "wfGrid n2 ?R2 ?C2"
    and t2: "\<And>i j. 0 \<le> i \<Longrightarrow> i < ?R2 \<Longrightarrow> 0 \<le> j \<Longrightarrow> j < ?C2 \<Longrightarrow>
        tileAt n2 i j =
          (if ?R \<le> i \<and> j < ?C then blanked True (tileAt oldMap (i - ?R) j)
           else tileAt n1 i j)"
    by auto
  from copyRows_spec [OF wf2 wfo, of 0 0 ?C True] pos
  obtain n3 where c3: "copyRows n2 oldMap ?R ?C 0 ?C True 0 = Inr n3"
    and wf3: "wfGrid n3 ?R2 ?C2"
    and t3: "\<And>i j. 0 \<le> i \<Longrightarrow> i < ?R2 \<Longrightarrow> 0 \<le> j \<Longrightarrow> j < ?C2 \<Longrightarrow>
        tileAt n3 i j =
          (if i < ?R \<and> ?C \<le> j then blanked True (tileAt oldMap i (j - ?C))
           else tileAt n2 i j)"
    by auto
  from copyRows_spec [OF wf3 wfo, of 0 ?R ?C True] pos
  obtain n4 where c4: "copyRows n3 oldMap ?R ?C ?R ?C True 0 = Inr n4"
    and wf4: "wfGrid n4 ?R2 ?C2"
    and t4: "\<And>i j. 0 \<le> i \<Longrightarrow> i < ?R2 \<Longrightarrow> 0 \<le> j \<Longrightarrow> j < ?C2 \<Longrightarrow>
        tileAt n4 i j =
          (if ?R \<le> i \<and> ?C \<le> j then blanked True (tileAt oldMap (i - ?R) (j - ?C))
           else tileAt n3 i j)"
    by auto
  have run: "copyAll new0 oldMap ?R ?C = Inr n4"
    using c1 c2 c3 c4 by (simp add: copyAll_def)
  have cells: "tileAt n4 i j = tileAt oldMap i j \<and>
      tileAt n4 (i + ?R) j = blanked True (tileAt oldMap i j) \<and>
      tileAt n4 i (j + ?C) = blanked True (tileAt oldMap i j) \<and>
      tileAt n4 (i + ?R) (j + ?C) = blanked True (tileAt oldMap i j)"
    if ij: "0 \<le> i" "i < ?R" "0 \<le> j" "j < ?C" for i j
  proof -
    have a: "tileAt n4 i j = tileAt oldMap i j"
      using ij by (simp add: t4 t3 t2 t1)
    have b: "tileAt n4 (i + ?R) j = blanked True (tileAt oldMap i j)"
      using ij by (simp add: t4 t3 t2 t1)
    have c: "tileAt n4 i (j + ?C) = blanked True (tileAt oldMap i j)"
      using ij by (simp add: t4 t3 t2 t1)
    have d: "tileAt n4 (i + ?R) (j + ?C) = blanked True (tileAt oldMap i j)"
      using ij by (simp add: t4 t3 t2 t1)
    from a b c d show ?thesis by simp
  qed
  from run wf4 cells show ?thesis by blast
qed

lemma playerCount_pos_ex:
  assumes "wfGrid m maxRow maxCol" and "playerCount m = 1"
  shows "\<exists>pr pc. 0 \<le> pr \<and> pr < maxRow \<and> 0 \<le> pc \<and> pc < maxCol \<and> tileAt m pr pc = TILE_PLAYER"
proof (rule ccontr)
  assume "\<not> ?thesis"
  then have "\<forall>r c. 0 \<le> r \<and> r < maxRow \<and> 0 \<le> c \<and> c < maxCol \<longrightarrow> tileAt m r c \<noteq> TILE_PLAYER"
    by blast
  with playerCount_0 [OF assms(1)] have "playerCount m = 0" by simp
  with assms(2) show False by simp
qed

lemma blanked_not_player: "blanked True t \<noteq> TILE_PLAYER"
  by (simp add: blanked_def tile_defs)

lemma createMap_ok:
  assumes "0 < maxRow" "0 < maxCol" "maxRow * maxCol \<le> INT32_MAX"
  shows "createMap h maxRow maxCol =
           (h @ [Some (replicate (nat maxRow) (replicate (nat maxCol) TILE_OPEN))],
            Some (length h))"
proof -
  have "\<not> INT32_MAX div maxCol < maxRow"
    using assms by (simp add: div_less_iff_less_mult)
  moreover have "\<not> INT32_MAX div maxRow < maxCol"
    using assms by (simp add: div_less_iff_less_mult mult.commute)
  ultimately show ?thesis using assms by (simp add: createMap_def)
qed

lemma wfGrid_replicate:
  "0 \<le> maxRow \<Longrightarrow> 0 \<le> maxCol \<Longrightarrow>
   wfGrid (replicate (nat maxRow) (replicate (nat maxCol) t)) maxRow maxCol"
  by (simp add: wfGrid_def list_all_length)

lemma resizeMap_ok:
  assumes blk: "block h a = Some m"
    and wf: "wfGrid m maxRow maxCol" and pos: "0 < maxRow" "0 < maxCol"
    and fits: "(maxRow * 2) * (maxCol * 2) \<le> INT32_MAX"
  shows "\<exists>m'. resizeMap h (Some a) maxRow maxCol =
                 Inr ((h @ [Some m'])[a := None], Some (length h), maxRow * 2, maxCol * 2) \<and>
           wfGrid m' (maxRow * 2) (maxCol * 2) \<and>
           (\<forall>i j. 0 \<le> i \<and> i < maxRow \<and> 0 \<le> j \<and> j < maxCol \<longrightarrow>
              tileAt m' i j = tileAt m i j \<and>
              tileAt m' (i + maxRow) j = blanked True (tileAt m i j) \<and>
              tileAt m' i (j + maxCol) = blanked True (tileAt m i j) \<and>
              tileAt m' (i + maxRow) (j + maxCol) = blanked True (tileAt m i j))"
proof -
  let ?R2 = "maxRow * 2" and ?C2 = "maxCol * 2"
  let ?new0 = "replicate (nat ?R2) (replicate (nat ?C2) TILE_OPEN)"
  let ?h1 = "h @ [Some ?new0]"
  have i32: "int32 ?R2" "int32 ?C2"
  proof -
    define R2 C2 where "R2 = maxRow * 2" and "C2 = maxCol * 2"
    have p2: "1 \<le> R2" "1 \<le> C2" using pos by (simp_all add: R2_def C2_def)
    have "R2 * 1 \<le> R2 * C2" using p2 by (intro mult_left_mono) simp_all
    moreover have "1 * C2 \<le> R2 * C2" using p2 by (intro mult_right_mono) simp_all
    moreover have "R2 * C2 \<le> INT32_MAX" using fits by (simp only: R2_def C2_def)
    ultimately have "R2 \<le> INT32_MAX" "C2 \<le> INT32_MAX" by simp_all
    with p2 show "int32 ?R2" "int32 ?C2"
      by (simp_all add: int32_def INT32_MIN_def R2_def C2_def)
  qed
  have chk: "\<not> INT32_MAX div ?C2 < ?R2"
    using pos fits by (simp add: div_less_iff_less_mult)
  have cm: "createMap h ?R2 ?C2 = (?h1, Some (length h))"
    using pos fits by (intro createMap_ok) simp_all
  from blk have a: "a < length h" "h ! a = Some m"
    by (auto simp: block_def split: if_splits)
  have b1: "block ?h1 (length h) = Some ?new0" by (simp add: block_def)
  have b2: "block ?h1 a = Some m" using a by (simp add: block_def nth_append)
  have wfn: "wfGrid ?new0 ?R2 ?C2" using pos by (intro wfGrid_replicate) simp_all
  from copyAll_spec [OF wfn wf] pos
  obtain n4 where ca: "copyAll ?new0 m maxRow maxCol = Inr n4"
    and wf4: "wfGrid n4 ?R2 ?C2"
    and cells: "\<forall>i j. 0 \<le> i \<and> i < maxRow \<and> 0 \<le> j \<and> j < maxCol \<longrightarrow>
              tileAt n4 i j = tileAt m i j \<and>
              tileAt n4 (i + maxRow) j = blanked True (tileAt m i j) \<and>
              tileAt n4 i (j + maxCol) = blanked True (tileAt m i j) \<and>
              tileAt n4 (i + maxRow) (j + maxCol) = blanked True (tileAt m i j)"
    by auto
  have upd: "?h1[length h := Some n4] = h @ [Some n4]" by simp
  have b3: "block (h @ [Some n4]) a = Some m" using a by (simp add: block_def nth_append)
  have len: "\<not> maxRow > int (length m)" using wf by (simp add: wfGrid_def)
  have del: "deleteMap (h @ [Some n4]) (Some a) maxRow = Inr ((h @ [Some n4])[a := None], None, 0)"
    using b3 len by (simp add: deleteMap_def)
  have run: "resizeMap h (Some a) maxRow maxCol =
      Inr ((h @ [Some n4])[a := None], Some (length h), ?R2, ?C2)"
    using pos i32 chk cm b1 b2 ca upd del
    by (simp add: resizeMap_def Let_def)
  from run wf4 cells show ?thesis by blast
qed

lemma tiled_player_unique:
  assumes cells: "\<And>i j. 0 \<le> i \<Longrightarrow> i < maxRow \<Longrightarrow> 0 \<le> j \<Longrightarrow> j < maxCol \<Longrightarrow>
              tileAt m' i j = tileAt m i j \<and>
              tileAt m' (i + maxRow) j = blanked True (tileAt m i j) \<and>
              tileAt m' i (j + maxCol) = blanked True (tileAt m i j) \<and>
              tileAt m' (i + maxRow) (j + maxCol) = blanked True (tileAt m i j)"
    and uniq: "\<And>r c. 0 \<le> r \<Longrightarrow> r < maxRow \<Longrightarrow> 0 \<le> c \<Longrightarrow> c < maxCol \<Longrightarrow>
      (tileAt m r c = TILE_PLAYER) = (r = pr \<and> c = pc)"
    and p: "0 \<le> pr" "pr < maxRow" "0 \<le> pc" "pc < maxCol"
    and rc: "0 \<le> r" "r < maxRow * 2" "0 \<le> c" "c < maxCol * 2"
  shows "(tileAt m' r c = TILE_PLAYER) = (r = pr \<and> c = pc)"
proof -
  define i where "i = (if r < maxRow then r else r - maxRow)"
  define j where "j = (if c < maxCol then c else c - maxCol)"
  have ij: "0 \<le> i" "i < maxRow" "0 \<le> j" "j < maxCol"
    using rc by (auto simp: i_def j_def)
  note cl = cells [OF ij] and bl = blanked_not_player [of "tileAt m i j"]
  consider (tl) "r = i" "c = j" | (bl) "r = i + maxRow" "c = j"
    | (tr) "r = i" "c = j + maxCol" | (br) "r = i + maxRow" "c = j + maxCol"
    by (cases "r < maxRow"; cases "c < maxCol") (simp_all add: i_def j_def)
  then show ?thesis
  proof cases
    case tl
    with cl uniq [OF ij] show ?thesis by simp
  next
    case bl
    with cl \<open>blanked True (tileAt m i j) \<noteq> TILE_PLAYER\<close> ij p show ?thesis by auto
  next
    case tr
    with cl \<open>blanked True (tileAt m i j) \<noteq> TILE_PLAYER\<close> ij p show ?thesis by auto
  next
    case br
    with cl \<open>blanked True (tileAt m i j) \<noteq> TILE_PLAYER\<close> ij p show ?thesis by auto
  qed
qed

lemma resize_valid:
  assumes v: "validState m maxRow maxCol p"
    and blk: "block h a = Some m"
    and run: "resizeMap h (Some a) maxRow maxCol = Inr (h', Some b, maxRow', maxCol')"
  shows "\<exists>m'. block h' b = Some m' \<and> validState m' maxRow' maxCol' p"
proof -
  from v have wf: "wfGrid m maxRow maxCol"
    and pr: "0 \<le> row p" "row p < maxRow" and pc: "0 \<le> col p" "col p < maxCol"
    and one: "playerCount m = 1 \<and> tileAt m (row p) (col p) = TILE_PLAYER"
    by (simp_all add: validState_def)
  from pr pc have pos: "0 < maxRow" "0 < maxCol" by simp_all
  have fits: "(maxRow * 2) * (maxCol * 2) \<le> INT32_MAX"
  proof (rule ccontr)
    assume "\<not> ?thesis"
    then have over: "INT32_MAX < (maxRow * 2) * (maxCol * 2)" by simp
    show False
    proof (cases "int32 (maxRow * 2) \<and> int32 (maxCol * 2)")
      case False
      with pos have "resizeMap h (Some a) maxRow maxCol = Inl SignedOverflow"
        by (auto simp: resizeMap_def Let_def)
      with run show False by simp
    next
      case True
      have chk: "INT32_MAX div (maxCol * 2) < maxRow * 2"
        using pos over by (simp add: div_less_iff_less_mult)
      have len: "\<not> maxRow > int (length m)" using wf by (simp add: wfGrid_def)
      have del: "deleteMap h (Some a) maxRow = Inr (h[a := None], None, 0)"
        using blk len by (simp add: deleteMap_def)
      have "resizeMap h (Some a) maxRow maxCol =
          Inr (h[a := None], None, maxRow * 2, maxCol * 2)"
        using pos True chk del by (simp add: resizeMap_def Let_def)
      with run show False by simp
    qed
  qed
  from resizeMap_ok [OF blk wf pos fits] run
  obtain m' where h': "h' = (h @ [Some m'])[a := None]" and b: "b = length h"
    and dims: "maxRow' = maxRow * 2" "maxCol' = maxCol * 2"
    and wf': "wfGrid m' (maxRow * 2) (maxCol * 2)"
    and cells: "\<And>i j. 0 \<le> i \<Longrightarrow> i < maxRow \<Longrightarrow> 0 \<le> j \<Longrightarrow> j < maxCol \<Longrightarrow>
              tileAt m' i j = tileAt m i j \<and>
              tileAt m' (i + maxRow) j = blanked True (tileAt m i j) \<and>
              tileAt m' i (j + maxCol) = blanked True (tileAt m i j) \<and>
              tileAt m' (i + maxRow) (j + maxCol) = blanked True (tileAt m i j)"
    by auto
  from one playerCount_1 [OF wf pr pc]
  have uniq: "\<And>r c. 0 \<le> r \<Longrightarrow> r < maxRow \<Longrightarrow> 0 \<le> c \<Longrightarrow> c < maxCol \<Longrightarrow>
      (tileAt m r c = TILE_PLAYER) = (r = row p \<and> c = col p)"
    by simp
  have p2: "0 \<le> row p" "row p < maxRow * 2" "0 \<le> col p" "col p < maxCol * 2"
    using pr pc by simp_all
  have "(tileAt m' r c = TILE_PLAYER) = (r = row p \<and> c = col p)"
    if "0 \<le> r" "r < maxRow * 2" "0 \<le> c" "c < maxCol * 2" for r c
    using cells uniq pr pc that by (rule tiled_player_unique)
  with playerCount_1 [OF wf' p2]
  have "playerCount m' = 1 \<and> tileAt m' (row p) (col p) = TILE_PLAYER" by simp
  with wf' p2 have "validState m' maxRow' maxCol' p" by (simp add: validState_def dims)
  moreover from blk have "a < length h" by (auto simp: block_def split: if_splits)
  then have "block h' b = Some m'" by (simp add: h' b block_def)
  ultimately show ?thesis by blast
qed

section \<open>Facts about loadLevel\<close>

declare fillCols.simps [simp del] fillRows.simps [simp del]

lemma filter_dropWhile_same: "filter (\<lambda>x. \<not> P x) (dropWhile P xs) = filter (\<lambda>x. \<not> P x) xs"
  by (induction xs) auto

lemma readChar_Some:
  assumes "readChar s = Some (ch, rest)"
  shows "tileTokens s = ch # tileTokens rest"
proof -
  from assms have dw: "dropWhile isspace s = ch # rest"
    by (simp add: readChar_def split: list.splits)
  then have "\<not> isspace ch"
    using hd_dropWhile [of isspace s] by auto
  moreover have "tileTokens s = tileTokens (ch # rest)"
    unfolding tileTokens_def dw [symmetric] by (simp add: filter_dropWhile_same)
  ultimately show ?thesis by (simp add: tileTokens_def)
qed

lemma tileFor_start: "tileFor player (row player) (col player) spot = Some TILE_PLAYER"
  by (simp add: tileFor_def)

lemma tileFor_other:
  assumes "\<not> (r = row player \<and> c = col player)"
  shows "tileFor player r c spot = (if spot \<in> set recognised then Some spot else None)"
proof (cases "spot \<in> set recognised")
  case True
  from assms have ns: "(r = row player \<and> c = col player) = False" by simp
  from True consider "spot = TILE_TREASURE" | "spot = TILE_PILLAR" | "spot = TILE_OPEN"
    | "spot = TILE_AMULET" | "spot = TILE_MONSTER" | "spot = TILE_DOOR" | "spot = TILE_EXIT"
    unfolding recognised_def by fastforce
  then have "tileFor player r c spot = Some spot"
    by cases (simp_all add: tileFor_def ns)
  with True show ?thesis by simp
next
  case False
  from assms have ns: "(r = row player \<and> c = col player) = False" by simp
  from False have "spot \<noteq> TILE_TREASURE" "spot \<noteq> TILE_PILLAR" "spot \<noteq> TILE_OPEN"
    "spot \<noteq> TILE_AMULET" "spot \<noteq> TILE_MONSTER" "spot \<noteq> TILE_DOOR" "spot \<noteq> TILE_EXIT"
    by (simp_all add: recognised_def)
  then have "tileFor player r c spot = None" by (simp add: tileFor_def ns)
  with False show ?thesis by simp
qed

lemma recognised_not_player: "TILE_PLAYER \<notin> set recognised"
  by (simp add: recognised_def tile_defs)

lemma fillCols_spec:
  "wfGrid m maxRow maxCol \<Longrightarrow> 0 \<le> r \<Longrightarrow> r < maxRow \<Longrightarrow> 0 \<le> c \<Longrightarrow>
   \<exists>m' res. fillCols m maxCol player r c s = Inr (m', res) \<and> wfGrid m' maxRow maxCol \<and>
     (\<forall>i j. 0 \<le> i \<and> i < maxRow \<and> 0 \<le> j \<and> j < maxCol \<and> \<not> (i = r \<and> c \<le> j) \<longrightarrow>
        tileAt m' i j = tileAt m i j) \<and>
     (\<forall>s'. res = Some s' \<longrightarrow>
        nat (maxCol - c) \<le> length (tileTokens s) \<and>
        tileTokens s' = drop (nat (maxCol - c)) (tileTokens s) \<and>
        (\<forall>j. c \<le> j \<and> j < maxCol \<longrightarrow>
           tileFor player r j (tileTokens s ! nat (j - c)) = Some (tileAt m' r j)))"
proof (induction m maxCol player r c s rule: fillCols.induct)
  case (1 m maxCol player r c s)
  note wf = \<open>wfGrid m maxRow maxCol\<close> and bounds = \<open>0 \<le> r\<close> \<open>r < maxRow\<close> \<open>0 \<le> c\<close>
  show ?case
  proof (cases "c < maxCol")
    case False
    then have "fillCols m maxCol player r c s = Inr (m, Some s)"
      by (subst fillCols.simps) simp
    with wf False show ?thesis by auto
  next
    case True
    show ?thesis
    proof (cases "readChar s")
      case None
      with True have "fillCols m maxCol player r c s = Inr (m, None)"
        by (subst fillCols.simps) simp
      with wf show ?thesis by auto
    next
      case (Some x)
      obtain spot s1 where x: "x = (spot, s1)" by (cases x)
      with Some have rc: "readChar s = Some (spot, s1)" by simp
      then have toks: "tileTokens s = spot # tileTokens s1" by (rule readChar_Some)
      show ?thesis
      proof (cases "tileFor player r c spot")
        case None
        with True rc have "fillCols m maxCol player r c s = Inr (m, None)"
          by (subst fillCols.simps) simp
        with wf show ?thesis by auto
      next
        case (Some t)
        define m1 where "m1 = setTile m r c t"
        have wf1: "wfGrid m1 maxRow maxCol" unfolding m1_def using wf by (rule wfGrid_setTile)
        have w: "writeTile m r c t = Inr m1"
          using wf bounds True by (simp add: writeTile_wf m1_def)
        have t1: "tileAt m1 i j = (if i = r \<and> j = c then t else tileAt m i j)"
          if "0 \<le> i" "i < maxRow" "0 \<le> j" "j < maxCol" for i j
          unfolding m1_def using tileAt_setTile [OF wf bounds(1,2) \<open>0 \<le> c\<close> True that] .
        have run: "fillCols m maxCol player r c s = fillCols m1 maxCol player r (c + 1) s1"
          using True rc Some w by (subst fillCols.simps) simp
        from "1.IH" [OF True rc [unfolded x [symmetric]] x [symmetric] Some w wf1 bounds(1,2)]
          \<open>0 \<le> c\<close>
        obtain m' res where r': "fillCols m1 maxCol player r (c + 1) s1 = Inr (m', res)"
          and wf': "wfGrid m' maxRow maxCol"
          and fr': "\<And>i j. 0 \<le> i \<Longrightarrow> i < maxRow \<Longrightarrow> 0 \<le> j \<Longrightarrow> j < maxCol \<Longrightarrow>
              \<not> (i = r \<and> c + 1 \<le> j) \<Longrightarrow> tileAt m' i j = tileAt m1 i j"
          and ok': "\<And>s'. res = Some s' \<Longrightarrow>
              nat (maxCol - (c + 1)) \<le> length (tileTokens s1) \<and>
              tileTokens s' = drop (nat (maxCol - (c + 1))) (tileTokens s1) \<and>
              (\<forall>j. c + 1 \<le> j \<and> j < maxCol \<longrightarrow>
                 tileFor player r j (tileTokens s1 ! nat (j - (c + 1))) = Some (tileAt m' r j))"
          by auto
        have fr: "tileAt m' i j = tileAt m i j"
          if "0 \<le> i" "i < maxRow" "0 \<le> j" "j < maxCol" "\<not> (i = r \<and> c \<le> j)" for i j
          using fr' [of i j] t1 [of i j] that by auto
        have here: "tileAt m' r c = t"
          using fr' [of r c] t1 [of r c] bounds True by simp
        have suc: "nat (maxCol - c) = Suc (nat (maxCol - (c + 1)))"
          using True by simp
        have ok: "nat (maxCol - c) \<le> length (tileTokens s) \<and>
              tileTokens s' = drop (nat (maxCol - c)) (tileTokens s) \<and>
              (\<forall>j. c \<le> j \<and> j < maxCol \<longrightarrow>
                 tileFor player r j (tileTokens s ! nat (j - c)) = Some (tileAt m' r j))"
          if "res = Some s'" for s'
        proof -
          note o = ok' [OF that]
          have "tileFor player r j (tileTokens s ! nat (j - c)) = Some (tileAt m' r j)"
            if j: "c \<le> j" "j < maxCol" for j
          proof (cases "j = c")
            case True
            with Some here toks show ?thesis by simp
          next
            case False
            with j have "nat (j - c) = Suc (nat (j - (c + 1)))" by simp
            with o j False toks show ?thesis by simp
          qed
          with o show ?thesis by (simp add: suc toks)
        qed
        from run r' wf' fr ok show ?thesis by auto
      qed
    qed
  qed
qed

lemma fillRows_spec:
  "wfGrid m maxRow maxCol \<Longrightarrow> 0 \<le> r \<Longrightarrow> 0 \<le> maxCol \<Longrightarrow>
   \<exists>m' res. fillRows m maxRow maxCol player r s = Inr (m', res) \<and> wfGrid m' maxRow maxCol \<and>
     (\<forall>i j. 0 \<le> i \<and> i < maxRow \<and> 0 \<le> j \<and> j < maxCol \<and> i < r \<longrightarrow>
        tileAt m' i j = tileAt m i j) \<and>
     (\<forall>s'. res = Some s' \<longrightarrow>
        nat ((maxRow - r) * maxCol) \<le> length (tileTokens s) \<and>
        tileTokens s' = drop (nat ((maxRow - r) * maxCol)) (tileTokens s) \<and>
        (\<forall>i j. r \<le> i \<and> i < maxRow \<and> 0 \<le> j \<and> j < maxCol \<longrightarrow>
           tileFor player i j (tileTokens s ! nat ((i - r) * maxCol + j)) =
             Some (tileAt m' i j)))"
proof (induction m maxRow maxCol player r s rule: fillRows.induct)
  case (1 m maxRow maxCol player r s)
  note wf = \<open>wfGrid m maxRow maxCol\<close> and r0 = \<open>0 \<le> r\<close> and c0 = \<open>0 \<le> maxCol\<close>
  show ?case
  proof (cases "r < maxRow")
    case False
    then have run: "fillRows m maxRow maxCol player r s = Inr (m, Some s)"
      by (subst fillRows.simps) simp
    from False c0 have "(maxRow - r) * maxCol \<le> 0"
      by (simp add: mult_nonpos_nonneg)
    then have "nat ((maxRow - r) * maxCol) = 0" by simp
    with run wf False show ?thesis by auto
  next
    case True
    from fillCols_spec [OF wf r0 True, where c = 0 and player = player and s = s]
    obtain m1 res1 where f1: "fillCols m maxCol player r 0 s = Inr (m1, res1)"
      and wf1: "wfGrid m1 maxRow maxCol"
      and fr1: "\<And>i j. 0 \<le> i \<Longrightarrow> i < maxRow \<Longrightarrow> 0 \<le> j \<Longrightarrow> j < maxCol \<Longrightarrow> i \<noteq> r \<Longrightarrow>
          tileAt m1 i j = tileAt m i j"
      and ok1: "\<And>s1. res1 = Some s1 \<Longrightarrow>
          nat maxCol \<le> length (tileTokens s) \<and>
          tileTokens s1 = drop (nat maxCol) (tileTokens s) \<and>
          (\<forall>j. 0 \<le> j \<and> j < maxCol \<longrightarrow>
             tileFor player r j (tileTokens s ! nat j) = Some (tileAt m1 r j))"
      by auto
    show ?thesis
    proof (cases res1)
      case None
      with True f1 have "fillRows m maxRow maxCol player r s = Inr (m1, None)"
        by (subst fillRows.simps) simp
      moreover have "tileAt m1 i j = tileAt m i j"
        if "0 \<le> i" "i < maxRow" "0 \<le> j" "j < maxCol" "i < r" for i j
        using fr1 [of i j] that by simp
      ultimately show ?thesis using wf1 by auto
    next
      case (Some s1)
      note o1 = ok1 [OF Some]
      have f1': "fillCols m maxCol player r 0 s = Inr (m1, Some s1)"
        using f1 Some by simp
      have run: "fillRows m maxRow maxCol player r s =
          fillRows m1 maxRow maxCol player (r + 1) s1"
        using True f1' by (subst fillRows.simps) simp
      from "1.IH" [OF True f1' refl refl wf1 _ c0] r0
      obtain m' res where r': "fillRows m1 maxRow maxCol player (r + 1) s1 = Inr (m', res)"
        and wf': "wfGrid m' maxRow maxCol"
        and fr': "\<And>i j. 0 \<le> i \<Longrightarrow> i < maxRow \<Longrightarrow> 0 \<le> j \<Longrightarrow> j < maxCol \<Longrightarrow> i < r + 1 \<Longrightarrow>
          tileAt m' i j = tileAt m1 i j"
        and ok': "\<And>s'. res = Some s' \<Longrightarrow>
          nat ((maxRow - (r + 1)) * maxCol) \<le> length (tileTokens s1) \<and>
          tileTokens s' = drop (nat ((maxRow - (r + 1)) * maxCol)) (tileTokens s1) \<and>
          (\<forall>i j. r + 1 \<le> i \<and> i < maxRow \<and> 0 \<le> j \<and> j < maxCol \<longrightarrow>
             tileFor player i j (tileTokens s1 ! nat ((i - (r + 1)) * maxCol + j)) =
               Some (tileAt m' i j))"
        by auto
      have fr: "tileAt m' i j = tileAt m i j"
        if "0 \<le> i" "i < maxRow" "0 \<le> j" "j < maxCol" "i < r" for i j
        using fr' [of i j] fr1 [of i j] that by simp
      have rest0: "0 \<le> (maxRow - (r + 1)) * maxCol"
        using True c0 by (intro mult_nonneg_nonneg) simp_all
      have split: "nat ((maxRow - r) * maxCol) = nat maxCol + nat ((maxRow - (r + 1)) * maxCol)"
      proof -
        have "(maxRow - r) * maxCol = maxCol + (maxRow - (r + 1)) * maxCol"
          by (simp add: algebra_simps)
        then show ?thesis using c0 rest0 by (simp add: nat_add_distrib)
      qed
      have ok: "nat ((maxRow - r) * maxCol) \<le> length (tileTokens s) \<and>
          tileTokens s' = drop (nat ((maxRow - r) * maxCol)) (tileTokens s) \<and>
          (\<forall>i j. r \<le> i \<and> i < maxRow \<and> 0 \<le> j \<and> j < maxCol \<longrightarrow>
             tileFor player i j (tileTokens s ! nat ((i - r) * maxCol + j)) =
               Some (tileAt m' i j))"
        if "res = Some s'" for s'
      proof -
        note o = ok' [OF that]
        have len: "nat ((maxRow - r) * maxCol) \<le> length (tileTokens s)"
        proof -
          from o have "nat ((maxRow - (r + 1)) * maxCol) \<le> length (tileTokens s1)" by simp
          moreover from o1 have "length (tileTokens s1) = length (tileTokens s) - nat maxCol"
            by simp
          moreover from o1 have "nat maxCol \<le> length (tileTokens s)" by simp
          ultimately show ?thesis unfolding split by linarith
        qed
        have dr: "tileTokens s' = drop (nat ((maxRow - r) * maxCol)) (tileTokens s)"
          using o o1 by (simp add: split add.commute)
        have cell: "tileFor player i j (tileTokens s ! nat ((i - r) * maxCol + j)) =
            Some (tileAt m' i j)"
          if ij: "r \<le> i" "i < maxRow" "0 \<le> j" "j < maxCol" for i j
        proof (cases "i = r")
          case True
          have "tileAt m' r j = tileAt m1 r j"
            using fr' [of r j] r0 ij True by simp
          with o1 ij True show ?thesis by simp
        next
          case False
          with ij have i1: "r + 1 \<le> i" by simp
          have k0: "0 \<le> (i - (r + 1)) * maxCol + j"
            using i1 c0 ij by (intro add_nonneg_nonneg mult_nonneg_nonneg) simp_all
          have "(i - r) * maxCol + j = maxCol + ((i - (r + 1)) * maxCol + j)"
            by (simp add: algebra_simps)
          then have idx: "nat ((i - r) * maxCol + j) =
              nat maxCol + nat ((i - (r + 1)) * maxCol + j)"
            using c0 k0 by (simp add: nat_add_distrib)
          have eq: "tileTokens s1 ! nat ((i - (r + 1)) * maxCol + j) =
              tileTokens s ! nat ((i - r) * maxCol + j)"
            using o1 by (simp add: idx)
          from o i1 ij
          have "tileFor player i j (tileTokens s1 ! nat ((i - (r + 1)) * maxCol + j)) =
              Some (tileAt m' i j)"
            by blast
          then show ?thesis unfolding eq .
        qed
        from len dr cell show ?thesis by blast
      qed
      from run r' wf' fr ok show ?thesis by auto
    qed
  qed
qed

lemma loadLevel_Some:
  assumes ld: "loadLevel h file player0 = Inr (h', Some (a, maxRow, maxCol, p))"
  shows "\<exists>s0 s1 s2 s3 s4 s5 h1 m0 m1.
           file = Some s0 \<and> readInt s0 = Some (maxRow, s1) \<and> readInt s1 = Some (maxCol, s2) \<and>
           int32 (maxRow * maxCol) \<and> 1 < maxRow * maxCol \<and>
           createMap h maxRow maxCol = (h1, Some a) \<and>
           readInt s2 = Some (row p, s3) \<and> readInt s3 = Some (col p, s4) \<and>
           p = player0\<lparr>row := row p, col := col p\<rparr> \<and>
           0 \<le> row p \<and> row p < maxRow \<and> 0 \<le> col p \<and> col p < maxCol \<and>
           block h1 a = Some m0 \<and>
           fillRows m0 maxRow maxCol p 0 s4 = Inr (m1, Some s5) \<and>
           dropWhile isspace s5 = [] \<and>
           (hasTile TILE_DOOR m1 \<or> hasTile TILE_EXIT m1) \<and>
           h' = h1[a := Some m1]"
proof -
  have "file \<noteq> None"
  proof
    assume "file = None"
    with ld show False by (simp add: loadLevel_def)
  qed
  then obtain s0 where f: "file = Some s0" by auto
  have "readInt s0 \<noteq> None"
  proof
    assume "readInt s0 = None"
    with ld f show False by (simp add: loadLevel_def)
  qed
  then obtain R s1 where r1: "readInt s0 = Some (R, s1)" by auto
  have "readInt s1 \<noteq> None"
  proof
    assume "readInt s1 = None"
    with ld f r1 show False by (simp add: loadLevel_def)
  qed
  then obtain C s2 where r2: "readInt s1 = Some (C, s2)" by auto
  have i32: "int32 (R * C)"
  proof (rule ccontr)
    assume "\<not> int32 (R * C)"
    with ld f r1 r2 show False by (simp add: loadLevel_def)
  qed
  have big: "1 < R * C"
  proof (rule ccontr)
    assume "\<not> 1 < R * C"
    then have "R * C \<le> 1" by simp
    with ld f r1 r2 i32 show False by (simp add: loadLevel_def)
  qed
  then have nb: "\<not> R * C \<le> 1" by simp
  obtain h1 mp where cm: "createMap h R C = (h1, mp)" by (cases "createMap h R C")
  have "readInt s2 \<noteq> None"
  proof
    assume "readInt s2 = None"
    with ld f r1 r2 i32 nb cm show False by (simp add: loadLevel_def)
  qed
  then obtain pr s3 where r3: "readInt s2 = Some (pr, s3)" by auto
  have "readInt s3 \<noteq> None"
  proof
    assume "readInt s3 = None"
    with ld f r1 r2 i32 nb cm r3 show False by (simp add: loadLevel_def)
  qed
  then obtain pc s4 where r4: "readInt s3 = Some (pc, s4)" by auto
  let ?q = "player0\<lparr>row := pr, col := pc\<rparr>"
  have q: "row ?q = pr" "col ?q = pc" by simp_all
  note pre = f r1 r2 i32 nb cm r3 r4
  have c1: "\<not> (pc \<ge> C \<or> pr \<ge> R)"
  proof
    assume "pc \<ge> C \<or> pr \<ge> R"
    with ld pre show False by (simp add: loadLevel_def Let_def)
  qed
  have c2: "\<not> (pc < 0 \<or> pr < 0)"
  proof
    assume "pc < 0 \<or> pr < 0"
    with ld pre c1 show False by (simp add: loadLevel_def Let_def)
  qed
  have "mp \<noteq> None"
  proof
    assume "mp = None"
    with ld pre c1 c2 show False by (simp add: loadLevel_def Let_def)
  qed
  then obtain a' where mp: "mp = Some a'" by auto
  have "block h1 a' \<noteq> None"
  proof
    assume "block h1 a' = None"
    with ld pre c1 c2 mp show False by (simp add: loadLevel_def Let_def)
  qed
  then obtain m0 where bl: "block h1 a' = Some m0" by auto
  have ld': "(case fillRows m0 R C ?q 0 s4 of
        Inl f \<Rightarrow> Inl f
      | Inr (m1, None) \<Rightarrow> Inr (h1[a' := Some m1], None)
      | Inr (m1, Some s5) \<Rightarrow>
          if dropWhile isspace s5 \<noteq> [] then Inr (h1[a' := Some m1], None)
          else if \<not> hasTile TILE_DOOR m1 \<and> \<not> hasTile TILE_EXIT m1
          then Inr (h1[a' := Some m1], None)
          else Inr (h1[a' := Some m1], Some (a', R, C, ?q))) =
      Inr (h', Some (a, maxRow, maxCol, p))"
    using ld pre c1 c2 mp bl by (simp add: loadLevel_def Let_def)
  then obtain m1 s5 where fr: "fillRows m0 R C ?q 0 s4 = Inr (m1, Some s5)"
    by (cases "fillRows m0 R C ?q 0 s4") (auto split: option.splits)
  from ld' fr have rest: "dropWhile isspace s5 = []"
    "hasTile TILE_DOOR m1 \<or> hasTile TILE_EXIT m1"
    "h' = h1[a' := Some m1]" "a = a'" "maxRow = R" "maxCol = C" "p = ?q"
    by (auto split: if_splits)
  from rest have pq: "p = player0\<lparr>row := row p, col := col p\<rparr>" by simp
  from pre c1 c2 mp bl fr rest q pq show ?thesis by auto
qed

lemmas load_eval = loadLevel_def readInt_def readChar_def isspace_def isdigit_def digitsValue_def
  int32_def INT32_MAX_def INT32_MIN_def createMap_def block_def fillRows.simps fillCols.simps
  tileFor_def writeTile_def setTile_def inGrid_def hasTile_def Let_def eval_nat_numeral

lemma createMap_Some:
  assumes "createMap h maxRow maxCol = (h1, Some a)"
  shows "0 < maxRow \<and> 0 < maxCol \<and> a = length h \<and>
         h1 = h @ [Some (replicate (nat maxRow) (replicate (nat maxCol) TILE_OPEN))]"
  using assms by (auto simp: createMap_def split: if_splits)

lemma fillRows_cells:
  assumes wf: "wfGrid m0 maxRow maxCol" and c0: "0 \<le> maxCol"
    and fr: "fillRows m0 maxRow maxCol p 0 s = Inr (m1, Some s')"
  shows "wfGrid m1 maxRow maxCol \<and>
         nat (maxRow * maxCol) \<le> length (tileTokens s) \<and>
         (\<forall>i j. 0 \<le> i \<and> i < maxRow \<and> 0 \<le> j \<and> j < maxCol \<longrightarrow>
            tileFor p i j (tileTokens s ! nat (i * maxCol + j)) = Some (tileAt m1 i j))"
  using fillRows_spec [OF wf _ c0, of 0 p s] fr by simp

lemma load_valid:
  assumes ld: "loadLevel h file player0 = Inr (h', Some (a, maxRow, maxCol, p))"
  shows "\<exists>m. block h' a = Some m \<and> validState m maxRow maxCol p"
proof -
  from loadLevel_Some [OF ld]
  obtain s4 s5 h1 m0 m1 where cm: "createMap h maxRow maxCol = (h1, Some a)"
    and pin: "0 \<le> row p" "row p < maxRow" "0 \<le> col p" "col p < maxCol"
    and bl: "block h1 a = Some m0"
    and fr: "fillRows m0 maxRow maxCol p 0 s4 = Inr (m1, Some s5)"
    and h': "h' = h1[a := Some m1]"
    by blast
  from createMap_Some [OF cm] have pos: "0 < maxRow" "0 < maxCol" and a: "a = length h"
    and h1: "h1 = h @ [Some (replicate (nat maxRow) (replicate (nat maxCol) TILE_OPEN))]"
    by simp_all
  from bl a h1 have m0: "m0 = replicate (nat maxRow) (replicate (nat maxCol) TILE_OPEN)"
    by (simp add: block_def)
  have wf0: "wfGrid m0 maxRow maxCol"
    unfolding m0 using pos by (intro wfGrid_replicate) simp_all
  from fillRows_cells [OF wf0 _ fr] pos
  have wf1: "wfGrid m1 maxRow maxCol"
    and cells: "\<And>i j. 0 \<le> i \<Longrightarrow> i < maxRow \<Longrightarrow> 0 \<le> j \<Longrightarrow> j < maxCol \<Longrightarrow>
        tileFor p i j (tileTokens s4 ! nat (i * maxCol + j)) = Some (tileAt m1 i j)"
    by simp_all
  have "(tileAt m1 i j = TILE_PLAYER) = (i = row p \<and> j = col p)"
    if ij: "0 \<le> i" "i < maxRow" "0 \<le> j" "j < maxCol" for i j
  proof (cases "i = row p \<and> j = col p")
    case True
    with cells [OF ij] tileFor_start [of p] show ?thesis by simp
  next
    case False
    from cells [OF ij] tileFor_other [OF False]
    have "tileAt m1 i j \<in> set recognised" by (simp split: if_splits)
    with recognised_not_player False show ?thesis by auto
  qed
  with playerCount_1 [OF wf1 pin]
  have "playerCount m1 = 1 \<and> tileAt m1 (row p) (col p) = TILE_PLAYER" by simp
  with wf1 pin have "validState m1 maxRow maxCol p" by (simp add: validState_def)
  moreover have "block h' a = Some m1" by (simp add: h' h1 a block_def)
  ultimately show ?thesis by blast
qed

subsection \<open>The token of the start cell\<close>

lemma tileTokens_replaceToken:
  "\<not> isspace y \<Longrightarrow> tileTokens (replaceToken k y s) = (tileTokens s)[k := y]"
proof (induction s arbitrary: k)
  case Nil
  then show ?case by (simp add: tileTokens_def)
next
  case (Cons ch s)
  then show ?case
    by (cases k) (simp_all add: tileTokens_def)
qed

lemma readChar_replaceToken:
  "\<not> isspace y \<Longrightarrow>
   readChar (replaceToken k y s) =
     (case readChar s of
        None \<Rightarrow> None
      | Some (x, s1) \<Rightarrow> if k = 0 then Some (y, s1) else Some (x, replaceToken (k - 1) y s1))"
proof (induction s)
  case Nil
  then show ?case by (simp add: readChar_def)
next
  case (Cons ch s)
  then show ?case by (simp add: readChar_def)
qed

lemma fillCols_replace_later:
  assumes y: "\<not> isspace y"
  shows "c \<le> maxCol \<Longrightarrow> nat (maxCol - c) \<le> k \<Longrightarrow>
     fillCols m maxCol player r c (replaceToken k y s) =
       (case fillCols m maxCol player r c s of
          Inl f \<Rightarrow> Inl f
        | Inr (m1, None) \<Rightarrow> Inr (m1, None)
        | Inr (m1, Some s1) \<Rightarrow> Inr (m1, Some (replaceToken (k - nat (maxCol - c)) y s1)))"
proof (induction m maxCol player r c s arbitrary: k rule: fillCols.induct)
  case (1 m maxCol player r c s)
  show ?case
  proof (cases "c < maxCol")
    case False
    with "1.prems" have "c = maxCol" by simp
    then show ?thesis
      by (subst fillCols.simps, subst (2) fillCols.simps) simp
  next
    case lt: True
    with "1.prems" have k0: "k \<noteq> 0" by simp
    show ?thesis
    proof (cases "readChar s")
      case None
      with lt y show ?thesis
        by (subst fillCols.simps, subst (2) fillCols.simps) (simp add: readChar_replaceToken)
    next
      case (Some a)
      obtain spot s1 where a: "a = (spot, s1)" by (cases a)
      show ?thesis
      proof (cases "tileFor player r c spot")
        case None
        with lt y Some a k0 show ?thesis
          by (subst fillCols.simps, subst (2) fillCols.simps) (simp add: readChar_replaceToken)
      next
        case t: (Some t)
        show ?thesis
        proof (cases "writeTile m r c t")
          case (Inl f)
          with lt y Some a k0 t show ?thesis
            by (subst fillCols.simps, subst (2) fillCols.simps) (simp add: readChar_replaceToken)
        next
          case (Inr m1)
          have le: "c + 1 \<le> maxCol" "nat (maxCol - (c + 1)) \<le> k - 1"
            using lt "1.prems" by simp_all
          have eq: "k - 1 - nat (maxCol - (c + 1)) = k - nat (maxCol - c)"
            using lt by simp
          note ih = "1.IH" [OF lt Some a [symmetric] t Inr le, unfolded eq]
          from lt y Some a k0 t Inr
          have "fillCols m maxCol player r c (replaceToken k y s) =
              fillCols m1 maxCol player r (c + 1) (replaceToken (k - 1) y s1)"
            by (subst fillCols.simps) (simp add: readChar_replaceToken)
          moreover from lt Some a t Inr
          have "fillCols m maxCol player r c s = fillCols m1 maxCol player r (c + 1) s1"
            by (subst fillCols.simps) simp
          ultimately show ?thesis using ih by simp
        qed
      qed
    qed
  qed
qed

lemma fillCols_replace_here:
  assumes y: "\<not> isspace y"
  shows "r = row player \<Longrightarrow> c \<le> col player \<Longrightarrow> col player < maxCol \<Longrightarrow>
     fillCols m maxCol player r c (replaceToken (nat (col player - c)) y s) =
       fillCols m maxCol player r c s"
proof (induction m maxCol player r c s rule: fillCols.induct)
  case (1 m maxCol player r c s)
  from "1.prems" have lt: "c < maxCol" by simp
  show ?case
  proof (cases "readChar s")
    case None
    with lt y show ?thesis
      by (subst fillCols.simps, subst (2) fillCols.simps) (simp add: readChar_replaceToken)
  next
    case (Some a)
    obtain spot s1 where a: "a = (spot, s1)" by (cases a)
    show ?thesis
    proof (cases "c = col player")
      case True
      with "1.prems" have tf: "tileFor player r c spot = Some TILE_PLAYER"
        "tileFor player r c y = Some TILE_PLAYER"
        by (simp_all add: tileFor_def)
      with lt y Some a True show ?thesis
        by (subst fillCols.simps, subst (2) fillCols.simps) (simp add: readChar_replaceToken)
    next
      case False
      with "1.prems" have k0: "nat (col player - c) \<noteq> 0" and le: "c + 1 \<le> col player"
        by simp_all
      have eq: "nat (col player - c) - 1 = nat (col player - (c + 1))" by simp
      show ?thesis
      proof (cases "tileFor player r c spot")
        case None
        with lt y Some a k0 show ?thesis
          by (subst fillCols.simps, subst (2) fillCols.simps) (simp add: readChar_replaceToken)
      next
        case t: (Some t)
        show ?thesis
        proof (cases "writeTile m r c t")
          case (Inl f)
          with lt y Some a k0 t show ?thesis
            by (subst fillCols.simps, subst (2) fillCols.simps)
              (simp add: readChar_replaceToken)
        next
          case (Inr m1)
          from "1.IH" [OF lt Some a [symmetric] t Inr "1.prems"(1) le "1.prems"(3)]
          show ?thesis
            using lt y Some a k0 t Inr eq
            by (subst fillCols.simps, subst (2) fillCols.simps)
              (simp add: readChar_replaceToken)
        qed
      qed
    qed
  qed
qed

lemma fillRows_replace:
  assumes y: "\<not> isspace y"
  shows "r \<le> row player \<Longrightarrow> row player < maxRow \<Longrightarrow> 0 \<le> col player \<Longrightarrow>
     col player < maxCol \<Longrightarrow>
     fillRows m maxRow maxCol player r
         (replaceToken (nat ((row player - r) * maxCol + col player)) y s) =
       fillRows m maxRow maxCol player r s"
proof (induction m maxRow maxCol player r s rule: fillRows.induct)
  case (1 m maxRow maxCol player r s)
  from "1.prems" have lt: "r < maxRow" by simp
  let ?k = "nat ((row player - r) * maxCol + col player)"
  show ?case
  proof (cases "r = row player")
    case True
    with "1.prems" have
      "fillCols m maxCol player r 0 (replaceToken ?k y s) = fillCols m maxCol player r 0 s"
      using fillCols_replace_here [OF y, of r player 0 maxCol m s] by simp
    with lt show ?thesis
      by (simp add: fillRows.simps [of m maxRow maxCol player r])
  next
    case False
    with "1.prems" have rl: "r < row player" by simp
    from "1.prems" have mc: "0 < maxCol" by simp
    from rl have "1 \<le> row player - r" by simp
    with mc have "1 * maxCol \<le> (row player - r) * maxCol"
      by (intro mult_right_mono) simp_all
    then have mono: "maxCol \<le> (row player - r) * maxCol" by (simp only: mult_1)
    with "1.prems"(3) have "maxCol \<le> (row player - r) * maxCol + col player" by linarith
    then have "nat maxCol \<le> ?k" by (rule nat_mono)
    then have kge: "nat (maxCol - 0) \<le> ?k" by simp
    have "(row player - (r + 1)) * maxCol + col player =
        (row player - r) * maxCol + col player - maxCol"
      by (simp add: algebra_simps)
    moreover have "nat ((row player - r) * maxCol + col player - maxCol) = ?k - nat maxCol"
      using mc by (simp add: nat_diff_distrib')
    ultimately
    have keq: "?k - nat (maxCol - 0) = nat ((row player - (r + 1)) * maxCol + col player)"
      by simp
    note fc = fillCols_replace_later [OF y, of 0 maxCol ?k m player r s, OF _ kge]
    show ?thesis
    proof (cases "fillCols m maxCol player r 0 s")
      case (Inl f)
      with fc mc lt show ?thesis
        by (simp add: fillRows.simps [of m maxRow maxCol player r])
    next
      case (Inr b)
      obtain m1 res where b: "b = (m1, res)" by (cases b)
      show ?thesis
      proof (cases res)
        case None
        with fc mc lt Inr b show ?thesis
          by (simp add: fillRows.simps [of m maxRow maxCol player r])
      next
        case (Some s1)
        have le: "r + 1 \<le> row player" using rl by simp
        from "1.IH" [OF lt Inr b [symmetric] Some le "1.prems"(2,3,4)]
        show ?thesis
          using fc mc lt Inr b Some keq
          by (simp add: fillRows.simps [of m maxRow maxCol player r])
      qed
    qed
  qed
qed

lemma loadLevel_start_token:
  assumes hdr: "readInt s0 = Some (maxRow, s1)" "readInt s1 = Some (maxCol, s2)"
      "readInt s2 = Some (pr, s3)" "readInt s3 = Some (pc, s4)"
    and hdr': "readInt t0 = Some (maxRow, t1)" "readInt t1 = Some (maxCol, t2)"
      "readInt t2 = Some (pr, t3)"
      "readInt t3 = Some (pc, replaceToken (nat (pr * maxCol + pc)) y s4)"
    and y: "\<not> isspace y"
  shows "loadLevel h (Some t0) player0 = loadLevel h (Some s0) player0"
proof (cases "pc \<ge> maxCol \<or> pr \<ge> maxRow \<or> pc < 0 \<or> pr < 0")
  case True
  with hdr hdr' show ?thesis
    by (auto simp add: loadLevel_def Let_def split: prod.splits)
next
  case False
  let ?q = "player0\<lparr>row := pr, col := pc\<rparr>"
  from False have b: "0 \<le> row ?q" "row ?q < maxRow" "0 \<le> col ?q" "col ?q < maxCol"
    by simp_all
  have "fillRows m0 maxRow maxCol ?q 0
          (replaceToken (nat ((row ?q - 0) * maxCol + col ?q)) y s4) =
        fillRows m0 maxRow maxCol ?q 0 s4" for m0
    using y b by (rule fillRows_replace)
  then have fr: "fillRows m0 maxRow maxCol ?q 0 (replaceToken (nat (pr * maxCol + pc)) y s4) =
        fillRows m0 maxRow maxCol ?q 0 s4" for m0
    by simp
  show ?thesis
    by (simp add: loadLevel_def hdr hdr' Let_def fr cong: prod.case_cong option.case_cong if_cong)
qed

lemma loadLevel_bad_token:
  assumes hdr: "readInt s0 = Some (maxRow, s1)" "readInt s1 = Some (maxCol, s2)"
      "readInt s2 = Some (pr, s3)" "readInt s3 = Some (pc, s4)"
    and rng: "int32 (maxRow * maxCol)"
    and cell: "0 \<le> i" "i < maxRow" "0 \<le> j" "j < maxCol"
    and other: "(i, j) \<noteq> (pr, pc)"
    and tok: "nat (i * maxCol + j) < length (tileTokens s4)"
    and bad: "tileTokens s4 ! nat (i * maxCol + j) \<notin> set recognised"
  shows "\<exists>h'. loadLevel h (Some s0) player0 = Inr (h', None)"
proof (rule ccontr)
  assume no: "\<not> ?thesis"
  let ?q = "player0\<lparr>row := pr, col := pc\<rparr>"
  let ?m0 = "replicate (nat maxRow) (replicate (nat maxCol) TILE_OPEN)"
  let ?h1 = "h @ [Some ?m0]"
  from cell have pos: "0 < maxRow" "0 < maxCol" by simp_all
  have small: "\<not> maxRow * maxCol \<le> 1"
  proof
    assume "maxRow * maxCol \<le> 1"
    with hdr rng have "loadLevel h (Some s0) player0 = Inr (h, None)"
      by (simp add: loadLevel_def)
    with no show False by blast
  qed
  from rng have "maxRow * maxCol \<le> INT32_MAX" by (simp add: int32_def)
  with pos have cm: "createMap h maxRow maxCol = (?h1, Some (length h))"
    by (intro createMap_ok)
  have bl: "block ?h1 (length h) = Some ?m0" by (simp add: block_def)
  have wf0: "wfGrid ?m0 maxRow maxCol" using pos by (intro wfGrid_replicate) simp_all
  have inb: "\<not> (pc \<ge> maxCol \<or> pr \<ge> maxRow)" "\<not> (pc < 0 \<or> pr < 0)"
  proof -
    show "\<not> (pc \<ge> maxCol \<or> pr \<ge> maxRow)"
    proof
      assume "pc \<ge> maxCol \<or> pr \<ge> maxRow"
      with hdr rng small cm have "loadLevel h (Some s0) player0 = Inr (?h1, None)"
        by (simp add: loadLevel_def Let_def)
      with no show False by blast
    qed
    then show "\<not> (pc < 0 \<or> pr < 0)"
    proof (rule contrapos_nn)
      assume "pc < 0 \<or> pr < 0"
      with hdr rng small cm \<open>\<not> (pc \<ge> maxCol \<or> pr \<ge> maxRow)\<close>
      have "loadLevel h (Some s0) player0 = Inr (?h1, None)"
        by (simp add: loadLevel_def Let_def)
      with no show "pc \<ge> maxCol \<or> pr \<ge> maxRow" by blast
    qed
  qed
  from fillRows_spec [OF wf0, of 0 ?q s4] pos
  obtain m1 res where fr: "fillRows ?m0 maxRow maxCol ?q 0 s4 = Inr (m1, res)"
    and ok: "\<And>s'. res = Some s' \<Longrightarrow>
        (\<forall>i j. 0 \<le> i \<and> i < maxRow \<and> 0 \<le> j \<and> j < maxCol \<longrightarrow>
           tileFor ?q i j (tileTokens s4 ! nat (i * maxCol + j)) = Some (tileAt m1 i j))"
    by auto
  have "res = None"
  proof (cases res)
    case (Some s')
    from ok [OF Some] cell
    have "tileFor ?q i j (tileTokens s4 ! nat (i * maxCol + j)) = Some (tileAt m1 i j)"
      by blast
    moreover from other have "\<not> (i = row ?q \<and> j = col ?q)" by simp
    ultimately show ?thesis using bad by (simp add: tileFor_other)
  qed simp
  with hdr rng small cm inb bl fr
  have "loadLevel h (Some s0) player0 = Inr (?h1[length h := Some m1], None)"
    by (simp add: loadLevel_def Let_def)
  with no show False by blast
qed

section \<open>The claims\<close>

text \<open>
  Claim C1 says that on each ray only the nearest monster moves and that the scan of the
  ray stops there. The loops of \<^verbatim>\<open>doMonsterAttack\<close> have no \<^verbatim>\<open>break\<close> after a monster: with two
  monsters on the ray to the right of the player, both move in one call.
\<close>

theorem nearest_monster_only_counterexample:
  "validState [''o-MM''] 1 4 \<lparr>row = 0, col = 0, treasure = 0\<rparr> \<and>
   doMonsterAttack [''o-MM''] 1 4 \<lparr>row = 0, col = 0, treasure = 0\<rparr> = Inr (False, [''oMM-''])"
  by (simp add: validState_def wfGrid_def tileAt_def playerCount_def doMonsterAttack_def
      scanRay.simps readTile_def writeTile_def setTile_def inGrid_def tile_defs)

text \<open>
  Claim C1, amended. On each ray, every monster that stands before the first pillar of the
  ray (no pillar between the player and the monster) is moved one step towards the
  player, not only the nearest one: after the call the cell one step closer to the player
  holds a monster, and the monster's own cell holds \<open>TILE_OPEN\<close>, or a monster again when
  the next cell outwards held a monster, which moved in. The scan of a ray does not stop
  at a monster.
\<close>

theorem monsters_before_pillar_advance:
  assumes wf: "wfGrid m maxRow maxCol"
    and pr: "0 \<le> row p" "row p < maxRow" and pc: "0 \<le> col p" "col p < maxCol"
    and k: "1 \<le> k" "k \<le> rayLength d maxRow maxCol (row p) (col p)"
    and mon: "rayOf m d (row p) (col p) k = TILE_MONSTER"
    and clear: "\<forall>j\<in>{1..<k}. rayOf m d (row p) (col p) j \<noteq> TILE_PILLAR"
  shows "\<exists>e m'. doMonsterAttack m maxRow maxCol p = Inr (e, m') \<and>
           tileAt m' (fst (closer d (row p) (col p) k)) (snd (closer d (row p) (col p) k)) =
             TILE_MONSTER \<and>
           rayOf m' d (row p) (col p) k =
             (if k + 1 \<le> rayLength d maxRow maxCol (row p) (col p) \<and>
                 rayOf m d (row p) (col p) (k + 1) = TILE_MONSTER
              then TILE_MONSTER else TILE_OPEN)"
proof -
  let ?L = "rayLength d maxRow maxCol (row p) (col p)"
  let ?f = "rayOf m d (row p) (col p)"
  from doMonsterAttack_spec [OF wf pr pc]
  obtain m' where run: "doMonsterAttack m maxRow maxCol p =
        Inr (adjacentMonster m maxRow maxCol (row p) (col p), m')"
    and rays: "\<And>j. 1 \<le> j \<Longrightarrow> j \<le> ?L \<Longrightarrow> rayOf m' d (row p) (col p) j = rayTile ?f ?L 1 j"
    and player: "tileAt m' (row p) (col p) =
        (if adjacentMonster m maxRow maxCol (row p) (col p) then TILE_MONSTER
         else tileAt m (row p) (col p))"
    by blast
  have adv: "advances ?f ?L 1 k"
    using k mon clear by (simp add: advances_def reaches_def)
  have np: "?f k \<noteq> TILE_PILLAR" using mon by (simp add: tile_defs)
  have nxt: "advances ?f ?L 1 (k + 1) = (k + 1 \<le> ?L \<and> ?f (k + 1) = TILE_MONSTER)"
  proof -
    have "{1..<k + 1} = insert k {1..<k}" using k by auto
    then have "reaches ?f 1 (k + 1)" using clear np by (simp add: reaches_def)
    then show ?thesis using k by (simp add: advances_def)
  qed
  have here: "rayOf m' d (row p) (col p) k =
      (if k + 1 \<le> ?L \<and> ?f (k + 1) = TILE_MONSTER then TILE_MONSTER else TILE_OPEN)"
    using rays [OF k] adv nxt by (simp add: rayTile_def)
  have cl: "tileAt m' (fst (closer d (row p) (col p) k)) (snd (closer d (row p) (col p) k)) =
      TILE_MONSTER"
  proof (cases "k = 1")
    case True
    then have "adjacentMonster m maxRow maxCol (row p) (col p)"
      using k mon by (cases d) (simp_all add: adjacentMonster_def)
    with player True show ?thesis
      by (simp add: closer_scanned scanned_0)
  next
    case False
    with k have k1: "1 \<le> k - 1" "k - 1 \<le> ?L" by simp_all
    from rays [OF k1] adv have "rayOf m' d (row p) (col p) (k - 1) = TILE_MONSTER"
      by (simp add: rayTile_def)
    then show ?thesis by (simp add: closer_scanned rayOf_def)
  qed
  from run here cl show ?thesis by blast
qed

theorem monsters_before_pillar_advance_witness:
  "\<exists>e m'. doMonsterAttack [''o-MM''] 1 4 \<lparr>row = 0, col = 0, treasure = 0\<rparr> = Inr (e, m') \<and>
      tileAt m' 0 2 = TILE_MONSTER \<and> tileAt m' 0 3 = TILE_OPEN"
proof -
  let ?m = "[''o-MM'']" and ?p = "\<lparr>row = 0, col = 0, treasure = 0\<rparr>"
  have wf: "wfGrid ?m 1 4" by (simp add: wfGrid_def)
  have k: "(1::int) \<le> 3" "3 \<le> rayLength Right 1 4 (row ?p) (col ?p)"
    by (simp_all add: rayLength_def)
  have mon: "rayOf ?m Right (row ?p) (col ?p) 3 = TILE_MONSTER"
    by (simp add: rayOf_def tileAt_def tile_defs)
  have clear: "\<forall>j\<in>{1..<3}. rayOf ?m Right (row ?p) (col ?p) j \<noteq> TILE_PILLAR"
  proof
    fix j :: int
    assume "j \<in> {1..<3}"
    then have "j = 1 \<or> j = 2" by auto
    then show "rayOf ?m Right (row ?p) (col ?p) j \<noteq> TILE_PILLAR"
      by (auto simp: rayOf_def tileAt_def tile_defs)
  qed
  from monsters_before_pillar_advance [OF wf _ _ _ _ k mon clear]
  show ?thesis by (simp add: rayOf_def rayLength_def)
qed

text \<open>
  Claim C2 says that every operation keeps exactly one player tile in the map and that
  \<^verbatim>\<open>doMonsterAttack\<close> never writes to the player's own cell. A monster next to the player
  is moved onto the player's cell (step \<open>i = 1\<close> of a loop writes \<^verbatim>\<open>TILE_MONSTER\<close> at distance
  \<open>i - 1 = 0\<close>), which is how the function finds that the player is caught: the player tile
  is overwritten and no player tile is left.
\<close>

theorem monster_overwrites_player_counterexample:
  "validState [''oM''] 1 2 \<lparr>row = 0, col = 0, treasure = 0\<rparr> \<and>
   doMonsterAttack [''oM''] 1 2 \<lparr>row = 0, col = 0, treasure = 0\<rparr> = Inr (True, [''M-'']) \<and>
   playerCount [''M-''] = 0"
  by (simp add: validState_def wfGrid_def tileAt_def playerCount_def doMonsterAttack_def
      scanRay.simps readTile_def writeTile_def setTile_def inGrid_def tile_defs)

text \<open>
  Claim C2, amended. \<^verbatim>\<open>loadLevel\<close> returns a valid map and player (exactly one cell holds
  the player tile, the cell at the player's coordinates); \<^verbatim>\<open>doPlayerMove\<close> and \<^verbatim>\<open>resizeMap\<close>
  turn a valid map and player into a valid map and player (for \<^verbatim>\<open>doPlayerMove\<close>: unless the
  treasure counter is \<^verbatim>\<open>INT32_MAX\<close> already, where its increment is undefined).
  \<^verbatim>\<open>doMonsterAttack\<close> on a valid map and player returns \<open>True\<close> exactly when, in some
  direction, the cell next to the player holds a monster; then the player's own cell is
  overwritten with \<open>TILE_MONSTER\<close> and no player tile is left. When it returns \<open>False\<close>
  the map and player are valid again: the player's cell was not written.
\<close>

theorem player_tile_invariant:
  "(loadLevel hL fileL playerL = Inr (hL', Some (aL, rowsL, colsL, pL)) \<longrightarrow>
      (\<exists>m'. block hL' aL = Some m' \<and> validState m' rowsL colsL pL)) \<and>
   (validState mM rowsM colsM pM \<longrightarrow>
      (\<exists>st m' p'. doPlayerMove mM rowsM colsM pM nextRow nextCol = Inr (st, m', p') \<and>
         validState m' rowsM colsM p') \<or>
      (doPlayerMove mM rowsM colsM pM nextRow nextCol = Inl SignedOverflow \<and>
         INT32_MAX \<le> treasure pM)) \<and>
   (validState mR rowsR colsR pR \<and> block hR aR = Some mR \<and>
    resizeMap hR (Some aR) rowsR colsR = Inr (hR', Some bR, rowsR', colsR') \<longrightarrow>
      (\<exists>m'. block hR' bR = Some m' \<and> validState m' rowsR' colsR' pR)) \<and>
   (validState mA rowsA colsA pA \<longrightarrow>
      (\<exists>e m'. doMonsterAttack mA rowsA colsA pA = Inr (e, m') \<and>
         e = adjacentMonster mA rowsA colsA (row pA) (col pA) \<and>
         (e \<longrightarrow> tileAt m' (row pA) (col pA) = TILE_MONSTER \<and> playerCount m' = 0) \<and>
         (\<not> e \<longrightarrow> validState m' rowsA colsA pA)))"
proof (intro conjI impI)
  assume "loadLevel hL fileL playerL = Inr (hL', Some (aL, rowsL, colsL, pL))"
  then show "\<exists>m'. block hL' aL = Some m' \<and> validState m' rowsL colsL pL"
    by (rule load_valid)
next
  assume "validState mM rowsM colsM pM"
  then show "(\<exists>st m' p'. doPlayerMove mM rowsM colsM pM nextRow nextCol = Inr (st, m', p') \<and>
         validState m' rowsM colsM p') \<or>
      (doPlayerMove mM rowsM colsM pM nextRow nextCol = Inl SignedOverflow \<and>
         INT32_MAX \<le> treasure pM)"
    by (rule move_keeps_valid)
next
  assume "validState mR rowsR colsR pR \<and> block hR aR = Some mR \<and>
    resizeMap hR (Some aR) rowsR colsR = Inr (hR', Some bR, rowsR', colsR')"
  then show "\<exists>m'. block hR' bR = Some m' \<and> validState m' rowsR' colsR' pR"
    using resize_valid by blast
next
  assume "validState mA rowsA colsA pA"
  from monster_keeps_player [OF this]
  show "\<exists>e m'. doMonsterAttack mA rowsA colsA pA = Inr (e, m') \<and>
         e = adjacentMonster mA rowsA colsA (row pA) (col pA) \<and>
         (e \<longrightarrow> tileAt m' (row pA) (col pA) = TILE_MONSTER \<and> playerCount m' = 0) \<and>
         (\<not> e \<longrightarrow> validState m' rowsA colsA pA)"
    by blast
qed

theorem player_tile_invariant_witness:
  "validState [''+-'', ''o?''] 2 2 \<lparr>row = 1, col = 0, treasure = 3\<rparr> \<and>
   (\<exists>st m' p'. doPlayerMove [''-+-'', ''Mo$'', ''-M-''] 3 3 \<lparr>row = 1, col = 1, treasure = 0\<rparr> 1 2 =
        Inr (st, m', p') \<and> validState m' 3 3 p') \<and>
   validState [''-M-M'', ''o!-!'', ''-M-M'', ''-!-!''] 4 4 \<lparr>row = 1, col = 0, treasure = 0\<rparr> \<and>
   (\<exists>m'. doMonsterAttack [''oM''] 1 2 \<lparr>row = 0, col = 0, treasure = 0\<rparr> = Inr (True, m') \<and>
      tileAt m' 0 0 = TILE_MONSTER \<and> playerCount m' = 0)"
proof -
  let ?mM = "[''-+-'', ''Mo$'', ''-M-'']" and ?pM = "\<lparr>row = 1, col = 1, treasure = 0\<rparr>"
  let ?mR = "[''-M'', ''o!'']" and ?pR = "\<lparr>row = 1, col = 0, treasure = 0\<rparr>"
  let ?mA = "[''oM'']" and ?pA = "\<lparr>row = 0, col = 0, treasure = 0\<rparr>"
  have ld: "loadLevel [] (Some ''2 2 1 0 +-M?'') \<lparr>row = 0, col = 0, treasure = 3\<rparr> =
      Inr ([Some [''+-'', ''o?'']], Some (0, 2, 2, \<lparr>row = 1, col = 0, treasure = 3\<rparr>))"
    by (simp add: tile_defs load_eval)
  have vM: "validState ?mM 3 3 ?pM"
    by (simp add: validState_def wfGrid_def tileAt_def playerCount_def tile_defs)
  have vR: "validState ?mR 2 2 ?pR"
    by (simp add: validState_def wfGrid_def tileAt_def playerCount_def tile_defs)
  have bR: "block [Some ?mR] 0 = Some ?mR" by (simp add: block_def)
  have rs: "resizeMap [Some ?mR] (Some 0) 2 2 =
      Inr ([None, Some [''-M-M'', ''o!-!'', ''-M-M'', ''-!-!'']], Some 1, 4, 4)"
    by (simp add: resizeMap_def createMap_def deleteMap_def block_def copyAll_def
        copyRows.simps copyCols.simps readTile_def writeTile_def setTile_def inGrid_def
        tileAt_def int32_def INT32_MAX_def INT32_MIN_def Let_def tile_defs eval_nat_numeral)
  have vA: "validState ?mA 1 2 ?pA"
    by (simp add: validState_def wfGrid_def tileAt_def playerCount_def tile_defs)
  have adj: "adjacentMonster ?mA 1 2 (row ?pA) (col ?pA)"
    by (simp add: adjacentMonster_def rayLength_def rayOf_def tileAt_def tile_defs)
  note inv = player_tile_invariant [where hL = "[]" and fileL = "Some ''2 2 1 0 +-M?''"
      and playerL = "\<lparr>row = 0, col = 0, treasure = 3\<rparr>" and hL' = "[Some [''+-'', ''o?'']]"
      and aL = 0 and rowsL = 2 and colsL = 2 and pL = "\<lparr>row = 1, col = 0, treasure = 3\<rparr>"
      and mM = ?mM and rowsM = 3 and colsM = 3 and pM = ?pM and nextRow = 1 and nextCol = 2
      and mR = ?mR and rowsR = 2 and colsR = 2 and pR = ?pR and hR = "[Some ?mR]" and aR = 0
      and hR' = "[None, Some [''-M-M'', ''o!-!'', ''-M-M'', ''-!-!'']]" and bR = 1
      and rowsR' = 4 and colsR' = 4
      and mA = ?mA and rowsA = 1 and colsA = 2 and pA = ?pA]
  from inv ld have c1: "validState [''+-'', ''o?''] 2 2 \<lparr>row = 1, col = 0, treasure = 3\<rparr>"
    by (simp add: block_def)
  from inv vM have c2: "\<exists>st m' p'. doPlayerMove ?mM 3 3 ?pM 1 2 = Inr (st, m', p') \<and>
      validState m' 3 3 p'"
    by (simp add: INT32_MAX_def)
  from inv vR bR rs
  have c3: "validState [''-M-M'', ''o!-!'', ''-M-M'', ''-!-!''] 4 4 ?pR"
    by (simp add: block_def)
  from inv vA adj
  have c4: "\<exists>m'. doMonsterAttack ?mA 1 2 ?pA = Inr (True, m') \<and>
      tileAt m' 0 0 = TILE_MONSTER \<and> playerCount m' = 0"
    by auto
  from c1 c2 c3 c4 show ?thesis by blast
qed

text \<open>
  Claim C3 says that \<^verbatim>\<open>loadLevel\<close> fails for an unrecognised tile token in any cell,
  the start cell included. The first test of the chain at lines 60 to 79 is the start
  position: for the start cell the token is read and dropped without being looked at. A
  level whose only unrecognised token stands in the start cell is loaded.
\<close>

theorem unrecognised_start_token_counterexample:
  "CHR ''X'' \<notin> set recognised \<and>
   loadLevel [] (Some ''1 2 0 0 X !'') \<lparr>row = 0, col = 0, treasure = 0\<rparr> =
     Inr ([Some [''o!'']], Some (0, 1, 2, \<lparr>row = 0, col = 0, treasure = 0\<rparr>))"
  by (simp add: recognised_def tile_defs load_eval)

text \<open>
  Claim C3, amended. For a level whose header is read (the four numbers): if the product of
  the dimensions is in the 32-bit range and the tile token of some cell of the map other
  than the start cell is not one of the seven recognised tiles, then \<^verbatim>\<open>loadLevel\<close> fails: it
  returns \<^verbatim>\<open>nullptr\<close>. The token of the start cell is read and not examined: a level with the
  same header that differs from the given one only in this token, which may be any
  character other than white space, gives the same result, so an unrecognised token there
  does not make \<^verbatim>\<open>loadLevel\<close> fail.
\<close>

theorem load_rejects_unrecognised:
  assumes hdr: "readInt s0 = Some (maxRow, s1)" "readInt s1 = Some (maxCol, s2)"
      "readInt s2 = Some (pr, s3)" "readInt s3 = Some (pc, s4)"
  shows "(\<forall>i j. int32 (maxRow * maxCol) \<and> 0 \<le> i \<and> i < maxRow \<and> 0 \<le> j \<and> j < maxCol \<and>
            (i, j) \<noteq> (pr, pc) \<and> nat (i * maxCol + j) < length (tileTokens s4) \<and>
            tileTokens s4 ! nat (i * maxCol + j) \<notin> set recognised \<longrightarrow>
            (\<exists>h'. loadLevel h (Some s0) player0 = Inr (h', None))) \<and>
         (\<forall>t0 t1 t2 t3 y. readInt t0 = Some (maxRow, t1) \<and> readInt t1 = Some (maxCol, t2) \<and>
            readInt t2 = Some (pr, t3) \<and>
            readInt t3 = Some (pc, replaceToken (nat (pr * maxCol + pc)) y s4) \<and>
            \<not> isspace y \<longrightarrow>
            loadLevel h (Some t0) player0 = loadLevel h (Some s0) player0)"
proof (intro conjI allI impI)
  fix i j
  assume a: "int32 (maxRow * maxCol) \<and> 0 \<le> i \<and> i < maxRow \<and> 0 \<le> j \<and> j < maxCol \<and>
      (i, j) \<noteq> (pr, pc) \<and> nat (i * maxCol + j) < length (tileTokens s4) \<and>
      tileTokens s4 ! nat (i * maxCol + j) \<notin> set recognised"
  then have "int32 (maxRow * maxCol)" "0 \<le> i" "i < maxRow" "0 \<le> j" "j < maxCol"
    "(i, j) \<noteq> (pr, pc)" "nat (i * maxCol + j) < length (tileTokens s4)"
    "tileTokens s4 ! nat (i * maxCol + j) \<notin> set recognised"
    by blast+
  with hdr show "\<exists>h'. loadLevel h (Some s0) player0 = Inr (h', None)"
    by (rule loadLevel_bad_token)
next
  fix t0 t1 t2 t3 y
  assume a: "readInt t0 = Some (maxRow, t1) \<and> readInt t1 = Some (maxCol, t2) \<and>
      readInt t2 = Some (pr, t3) \<and>
      readInt t3 = Some (pc, replaceToken (nat (pr * maxCol + pc)) y s4) \<and> \<not> isspace y"
  then have "readInt t0 = Some (maxRow, t1)" "readInt t1 = Some (maxCol, t2)"
    "readInt t2 = Some (pr, t3)"
    "readInt t3 = Some (pc, replaceToken (nat (pr * maxCol + pc)) y s4)" "\<not> isspace y"
    by blast+
  with hdr show "loadLevel h (Some t0) player0 = loadLevel h (Some s0) player0"
    by (rule loadLevel_start_token)
qed

theorem load_rejects_unrecognised_witness:
  "(\<exists>h'. loadLevel [] (Some ''1 2 0 0 - X'') \<lparr>row = 0, col = 0, treasure = 0\<rparr> = Inr (h', None)) \<and>
   loadLevel [] (Some ''1 2 0 0 X X'') \<lparr>row = 0, col = 0, treasure = 0\<rparr> =
     loadLevel [] (Some ''1 2 0 0 - X'') \<lparr>row = 0, col = 0, treasure = 0\<rparr>"
proof -
  have hdr: "readInt ''1 2 0 0 - X'' = Some (1, '' 2 0 0 - X'')"
    "readInt '' 2 0 0 - X'' = Some (2, '' 0 0 - X'')"
    "readInt '' 0 0 - X'' = Some (0, '' 0 - X'')"
    "readInt '' 0 - X'' = Some (0, '' - X'')"
    by (simp_all add: load_eval)
  have hdr': "readInt ''1 2 0 0 X X'' = Some (1, '' 2 0 0 X X'') \<and>
    readInt '' 2 0 0 X X'' = Some (2, '' 0 0 X X'') \<and>
    readInt '' 0 0 X X'' = Some (0, '' 0 X X'') \<and>
    readInt '' 0 X X'' = Some (0, replaceToken (nat (0 * 2 + 0)) CHR ''X'' '' - X'') \<and>
    \<not> isspace CHR ''X''"
    by (simp add: load_eval)
  have bad: "int32 (1 * 2) \<and> (0::int) \<le> 0 \<and> (0::int) < 1 \<and> (0::int) \<le> 1 \<and> (1::int) < 2 \<and>
      (0::int, 1::int) \<noteq> (0, 0) \<and> nat (0 * 2 + 1) < length (tileTokens '' - X'') \<and>
      tileTokens '' - X'' ! nat (0 * 2 + 1) \<notin> set recognised"
    by (simp add: load_eval tileTokens_def recognised_def tile_defs)
  note inst = load_rejects_unrecognised [OF hdr, of "[]" "\<lparr>row = 0, col = 0, treasure = 0\<rparr>"]
  from inst bad
  have "\<exists>h'. loadLevel [] (Some ''1 2 0 0 - X'') \<lparr>row = 0, col = 0, treasure = 0\<rparr> = Inr (h', None)"
    by blast
  moreover from inst hdr'
  have "loadLevel [] (Some ''1 2 0 0 X X'') \<lparr>row = 0, col = 0, treasure = 0\<rparr> =
     loadLevel [] (Some ''1 2 0 0 - X'') \<lparr>row = 0, col = 0, treasure = 0\<rparr>"
    by blast
  ultimately show ?thesis by blast
qed

text \<open>
  Claim C4. Let the map at the address \<open>a\<close> be well formed with positive dimensions
  \<open>maxRow\<close> and \<open>maxCol\<close> and hold exactly one player tile, and let the doubled dimensions
  pass the overflow test of \<^verbatim>\<open>resizeMap\<close> (the test \<^verbatim>\<open>maxRow > INT32_MAX / maxCol\<close> on the
  doubled values, which is the same as their product being greater than \<^verbatim>\<open>INT32_MAX\<close>, see
  \<open>div_less_iff_less_mult\<close>). Then \<^verbatim>\<open>resizeMap\<close> returns a new map of twice the rows and twice
  the columns and releases the old one. The new map is four copies of the old one: the top
  left quarter is the old map, and each of the three other quarters is the old map with
  \<open>TILE_OPEN\<close> in place of the player tile. So exactly one player tile is left, in the cell
  where it was.
\<close>

theorem resize_tiles:
  assumes blk: "block h a = Some m"
    and wf: "wfGrid m maxRow maxCol" and pos: "0 < maxRow" "0 < maxCol"
    and one: "playerCount m = 1"
    and fits: "(maxRow * 2) * (maxCol * 2) \<le> INT32_MAX"
  shows "\<exists>m'. resizeMap h (Some a) maxRow maxCol =
                 Inr ((h @ [Some m'])[a := None], Some (length h), maxRow * 2, maxCol * 2) \<and>
           wfGrid m' (maxRow * 2) (maxCol * 2) \<and>
           (\<forall>i j. 0 \<le> i \<and> i < maxRow \<and> 0 \<le> j \<and> j < maxCol \<longrightarrow>
              tileAt m' i j = tileAt m i j \<and>
              tileAt m' (i + maxRow) j = blanked True (tileAt m i j) \<and>
              tileAt m' i (j + maxCol) = blanked True (tileAt m i j) \<and>
              tileAt m' (i + maxRow) (j + maxCol) = blanked True (tileAt m i j)) \<and>
           playerCount m' = 1"
proof -
  let ?R2 = "maxRow * 2" and ?C2 = "maxCol * 2"
  from resizeMap_ok [OF blk wf pos fits]
  obtain m' where run: "resizeMap h (Some a) maxRow maxCol =
        Inr ((h @ [Some m'])[a := None], Some (length h), ?R2, ?C2)"
    and wf': "wfGrid m' ?R2 ?C2"
    and cells: "\<And>i j. 0 \<le> i \<Longrightarrow> i < maxRow \<Longrightarrow> 0 \<le> j \<Longrightarrow> j < maxCol \<Longrightarrow>
              tileAt m' i j = tileAt m i j \<and>
              tileAt m' (i + maxRow) j = blanked True (tileAt m i j) \<and>
              tileAt m' i (j + maxCol) = blanked True (tileAt m i j) \<and>
              tileAt m' (i + maxRow) (j + maxCol) = blanked True (tileAt m i j)"
    by blast
  from playerCount_pos_ex [OF wf one]
  obtain pr pc where p: "0 \<le> pr" "pr < maxRow" "0 \<le> pc" "pc < maxCol"
    and pt: "tileAt m pr pc = TILE_PLAYER" by blast
  from one pt playerCount_1 [OF wf p]
  have uniq: "\<And>r c. 0 \<le> r \<Longrightarrow> r < maxRow \<Longrightarrow> 0 \<le> c \<Longrightarrow> c < maxCol \<Longrightarrow>
      (tileAt m r c = TILE_PLAYER) = (r = pr \<and> c = pc)"
    by simp
  have "(tileAt m' r c = TILE_PLAYER) = (r = pr \<and> c = pc)"
    if "0 \<le> r" "r < ?R2" "0 \<le> c" "c < ?C2" for r c
    using cells uniq p that by (rule tiled_player_unique)
  moreover have "0 \<le> pr" "pr < ?R2" "0 \<le> pc" "pc < ?C2" using p by simp_all
  ultimately have "playerCount m' = 1 \<and> tileAt m' pr pc = TILE_PLAYER"
    using playerCount_1 [OF wf', of pr pc] by simp
  with run wf' cells show ?thesis by blast
qed

theorem resize_tiles_witness:
  "\<exists>m'. resizeMap [Some [''-M'', ''o!'']] (Some 0) 2 2 = Inr ([None, Some m'], Some 1, 4, 4) \<and>
      playerCount m' = 1 \<and>
      tileAt m' 1 0 = TILE_PLAYER \<and> tileAt m' 3 0 = TILE_OPEN \<and>
      tileAt m' 1 2 = TILE_OPEN \<and> tileAt m' 3 2 = TILE_OPEN \<and>
      tileAt m' 0 1 = TILE_MONSTER \<and> tileAt m' 2 3 = TILE_MONSTER"
proof -
  let ?m = "[''-M'', ''o!'']"
  have blk: "block [Some ?m] 0 = Some ?m" by (simp add: block_def)
  have wf: "wfGrid ?m 2 2" by (simp add: wfGrid_def)
  have one: "playerCount ?m = 1" by (simp add: playerCount_def tile_defs)
  have fits: "((2::int) * 2) * (2 * 2) \<le> INT32_MAX" by (simp add: INT32_MAX_def)
  from resize_tiles [OF blk wf _ _ one fits]
  obtain m' where run: "resizeMap [Some ?m] (Some 0) 2 2 = Inr ([None, Some m'], Some 1, 4, 4)"
    and cnt: "playerCount m' = 1"
    and cells: "\<And>i j. 0 \<le> i \<Longrightarrow> i < 2 \<Longrightarrow> 0 \<le> j \<Longrightarrow> j < 2 \<Longrightarrow>
        tileAt m' i j = tileAt ?m i j \<and>
        tileAt m' (i + 2) j = blanked True (tileAt ?m i j) \<and>
        tileAt m' i (j + 2) = blanked True (tileAt ?m i j) \<and>
        tileAt m' (i + 2) (j + 2) = blanked True (tileAt ?m i j)"
    by auto
  from cells [of 1 0] cells [of 0 1]
  have "tileAt m' 1 0 = TILE_PLAYER \<and> tileAt m' 3 0 = TILE_OPEN \<and>
      tileAt m' 1 2 = TILE_OPEN \<and> tileAt m' 3 2 = TILE_OPEN \<and>
      tileAt m' 0 1 = TILE_MONSTER \<and> tileAt m' 2 3 = TILE_MONSTER"
    by (simp add: tileAt_def blanked_def tile_defs)
  with run cnt show ?thesis by blast
qed

text \<open>
  Claim C5. For a valid map and player, a move onto a cell of the map that holds the exit
  tile returns \<open>STATUS_STAY\<close> and changes neither the map nor the player when the player's
  treasure counter is 0. When the counter is at least 1 it returns \<open>STATUS_ESCAPE\<close>, the
  player's coordinates are those of the target cell, the old cell of the player holds
  \<open>TILE_OPEN\<close>, the target cell holds \<open>TILE_PLAYER\<close>, every other cell and the treasure
  counter are as before.
\<close>

theorem move_exit:
  assumes "validState m maxRow maxCol player"
    and "0 \<le> nextRow" and "nextRow < maxRow" and "0 \<le> nextCol" and "nextCol < maxCol"
    and "tileAt m nextRow nextCol = TILE_EXIT"
  shows "(treasure player = 0 \<longrightarrow>
            doPlayerMove m maxRow maxCol player nextRow nextCol = Inr (STATUS_STAY, m, player)) \<and>
         (treasure player \<ge> 1 \<longrightarrow>
            (let m' = setTile (setTile m nextRow nextCol TILE_PLAYER) (row player) (col player)
                        TILE_OPEN
             in doPlayerMove m maxRow maxCol player nextRow nextCol =
                  Inr (STATUS_ESCAPE, m', player\<lparr>row := nextRow, col := nextCol\<rparr>) \<and>
                wfGrid m' maxRow maxCol \<and>
                tileAt m' (row player) (col player) = TILE_OPEN \<and>
                tileAt m' nextRow nextCol = TILE_PLAYER \<and>
                (\<forall>r c. 0 \<le> r \<and> r < maxRow \<and> 0 \<le> c \<and> c < maxCol \<and>
                       (r, c) \<noteq> (row player, col player) \<and> (r, c) \<noteq> (nextRow, nextCol) \<longrightarrow>
                       tileAt m' r c = tileAt m r c)))"
proof -
  from assms(1) have wf: "wfGrid m maxRow maxCol"
    and pr: "0 \<le> row player" "row player < maxRow"
    and pc: "0 \<le> col player" "col player < maxCol"
    and pt: "tileAt m (row player) (col player) = TILE_PLAYER"
    by (simp_all add: validState_def)
  let ?m1 = "setTile m nextRow nextCol TILE_PLAYER"
  let ?m2 = "setTile ?m1 (row player) (col player) TILE_OPEN"
  have wf1: "wfGrid ?m1 maxRow maxCol" using wf by (rule wfGrid_setTile)
  have wf2: "wfGrid ?m2 maxRow maxCol" using wf1 by (rule wfGrid_setTile)
  have rd: "readTile m nextRow nextCol = Inr TILE_EXIT"
    using wf assms by (simp add: readTile_wf)
  have ne: "\<not> (nextRow = row player \<and> nextCol = col player)"
    using pt assms(6) by (auto simp: tile_defs)
  have stay: "doPlayerMove m maxRow maxCol player nextRow nextCol = Inr (STATUS_STAY, m, player)"
    if "treasure player = 0"
    using that assms(2-5) rd by (simp add: doPlayerMove_def Let_def tile_defs)
  have rel: "relocate m player (row player) (col player) nextRow nextCol =
               Inr (?m2, player\<lparr>row := nextRow, col := nextCol\<rparr>)"
    using wf wf1 assms(2-5) pr pc by (simp add: relocate_def writeTile_wf)
  have esc: "doPlayerMove m maxRow maxCol player nextRow nextCol =
               Inr (STATUS_ESCAPE, ?m2, player\<lparr>row := nextRow, col := nextCol\<rparr>)"
    if "treasure player \<ge> 1"
    using that assms(2-5) rd rel by (simp add: doPlayerMove_def Let_def tile_defs)
  have t2: "tileAt ?m2 r c =
              (if r = row player \<and> c = col player then TILE_OPEN
               else if r = nextRow \<and> c = nextCol then TILE_PLAYER else tileAt m r c)"
    if "0 \<le> r" "r < maxRow" "0 \<le> c" "c < maxCol" for r c
    using that wf wf1 pr pc assms(2-5)
    by (simp add: tileAt_setTile [OF wf1] tileAt_setTile [OF wf])
  have old: "tileAt ?m2 (row player) (col player) = TILE_OPEN"
    using t2 [OF pr pc] by simp
  have new: "tileAt ?m2 nextRow nextCol = TILE_PLAYER"
    using t2 [OF assms(2-5)] ne by simp
  have frame: "\<forall>r c. 0 \<le> r \<and> r < maxRow \<and> 0 \<le> c \<and> c < maxCol \<and>
                 (r, c) \<noteq> (row player, col player) \<and> (r, c) \<noteq> (nextRow, nextCol) \<longrightarrow>
                 tileAt ?m2 r c = tileAt m r c"
    using t2 by auto
  show ?thesis
    using stay esc wf2 old new frame by (simp add: Let_def)
qed

theorem move_exit_witness:
  "doPlayerMove [''-+-'', ''Mo!'', ''-M-''] 3 3 \<lparr>row = 1, col = 1, treasure = 0\<rparr> 1 2 =
     Inr (STATUS_STAY, [''-+-'', ''Mo!'', ''-M-''], \<lparr>row = 1, col = 1, treasure = 0\<rparr>) \<and>
   doPlayerMove [''-+-'', ''Mo!'', ''-M-''] 3 3 \<lparr>row = 1, col = 1, treasure = 2\<rparr> 1 2 =
     Inr (STATUS_ESCAPE, [''-+-'', ''M-o'', ''-M-''], \<lparr>row = 1, col = 2, treasure = 2\<rparr>)"
proof -
  have v: "validState [''-+-'', ''Mo!'', ''-M-''] 3 3 \<lparr>row = 1, col = 1, treasure = t\<rparr>" for t
    by (simp add: validState_def wfGrid_def tileAt_def playerCount_def tile_defs)
  have e: "tileAt [''-+-'', ''Mo!'', ''-M-''] 1 2 = TILE_EXIT"
    by (simp add: tileAt_def tile_defs)
  show ?thesis
    using move_exit [OF v [of 0] _ _ _ _ e] move_exit [OF v [of 2] _ _ _ _ e]
    by (simp add: Let_def setTile_def tile_defs)
qed

text \<open>
  Claim C6. A move whose target cell is inside the map and holds a pillar or a monster
  returns \<open>STATUS_STAY\<close> and leaves the map and every field of the player as they were,
  whatever the treasure counter is: this test comes before every other tile.
\<close>

theorem move_blocked:
  assumes "wfGrid m maxRow maxCol"
    and "0 \<le> nextRow" and "nextRow < maxRow" and "0 \<le> nextCol" and "nextCol < maxCol"
    and "tileAt m nextRow nextCol = TILE_PILLAR \<or> tileAt m nextRow nextCol = TILE_MONSTER"
  shows "doPlayerMove m maxRow maxCol player nextRow nextCol = Inr (STATUS_STAY, m, player)"
  using assms by (auto simp: doPlayerMove_def readTile_wf)

theorem move_blocked_witness:
  "doPlayerMove [''-+-'', ''MoM'', ''-M!''] 3 3 \<lparr>row = 1, col = 1, treasure = 4\<rparr> 0 1 =
     Inr (STATUS_STAY, [''-+-'', ''MoM'', ''-M!''], \<lparr>row = 1, col = 1, treasure = 4\<rparr>) \<and>
   doPlayerMove [''-+-'', ''MoM'', ''-M!''] 3 3 \<lparr>row = 1, col = 1, treasure = 4\<rparr> 1 2 =
     Inr (STATUS_STAY, [''-+-'', ''MoM'', ''-M!''], \<lparr>row = 1, col = 1, treasure = 4\<rparr>)"
proof -
  have wf: "wfGrid [''-+-'', ''MoM'', ''-M!''] 3 3" by (simp add: wfGrid_def)
  have a: "tileAt [''-+-'', ''MoM'', ''-M!''] 0 1 = TILE_PILLAR \<or>
           tileAt [''-+-'', ''MoM'', ''-M!''] 0 1 = TILE_MONSTER"
    by (simp add: tileAt_def tile_defs)
  have b: "tileAt [''-+-'', ''MoM'', ''-M!''] 1 2 = TILE_PILLAR \<or>
           tileAt [''-+-'', ''MoM'', ''-M!''] 1 2 = TILE_MONSTER"
    by (simp add: tileAt_def tile_defs)
  show ?thesis
    using move_blocked [OF wf _ _ _ _ a, of "\<lparr>row = 1, col = 1, treasure = 4\<rparr>"]
      move_blocked [OF wf _ _ _ _ b, of "\<lparr>row = 1, col = 1, treasure = 4\<rparr>"]
    by simp
qed
text \<open>
  Claim C7. A call of \<^verbatim>\<open>doMonsterAttack\<close> never moves a monster through or past a pillar.
  For every well-formed map with the player inside it the call returns, and: every cell
  other than the player's own that held a pillar still holds it, whether or not it lies on
  a ray (no monster is written onto a pillar; in a valid state the player's own cell holds
  the player tile, not a pillar). Moreover, for every ray and every cell of it, at distance
  \<open>k\<close>, that holds a pillar: the call leaves that cell and every cell of the ray beyond it
  as they were (no monster beyond the pillar moves), and the cells beyond the pillar are not
  examined: a map that differs from the given one only in these cells gives the same
  returned flag and the same tiles in all other cells.
\<close>

theorem pillar_blocks_ray:
  assumes wf: "wfGrid m maxRow maxCol"
    and pr: "0 \<le> row p" "row p < maxRow" and pc: "0 \<le> col p" "col p < maxCol"
  shows "\<exists>e m'. doMonsterAttack m maxRow maxCol p = Inr (e, m') \<and>
           (\<forall>r c. 0 \<le> r \<and> r < maxRow \<and> 0 \<le> c \<and> c < maxCol \<and>
              (r, c) \<noteq> (row p, col p) \<and> tileAt m r c = TILE_PILLAR \<longrightarrow>
              tileAt m' r c = TILE_PILLAR) \<and>
           (\<forall>d k. 1 \<le> k \<and> k \<le> rayLength d maxRow maxCol (row p) (col p) \<and>
              rayOf m d (row p) (col p) k = TILE_PILLAR \<longrightarrow>
              (\<forall>j. k \<le> j \<and> j \<le> rayLength d maxRow maxCol (row p) (col p) \<longrightarrow>
                 rayOf m' d (row p) (col p) j = rayOf m d (row p) (col p) j) \<and>
              (\<forall>m2. wfGrid m2 maxRow maxCol \<and>
                 (\<forall>r c. 0 \<le> r \<and> r < maxRow \<and> 0 \<le> c \<and> c < maxCol \<and>
                    (\<forall>j. k < j \<and> j \<le> rayLength d maxRow maxCol (row p) (col p) \<longrightarrow>
                       (r, c) \<noteq> scanned d (row p) (col p) j) \<longrightarrow>
                    tileAt m2 r c = tileAt m r c) \<longrightarrow>
                 (\<exists>m2'. doMonsterAttack m2 maxRow maxCol p = Inr (e, m2') \<and>
                    (\<forall>r c. 0 \<le> r \<and> r < maxRow \<and> 0 \<le> c \<and> c < maxCol \<and>
                       (\<forall>j. k < j \<and> j \<le> rayLength d maxRow maxCol (row p) (col p) \<longrightarrow>
                          (r, c) \<noteq> scanned d (row p) (col p) j) \<longrightarrow>
                       tileAt m2' r c = tileAt m' r c))))"
proof -
  let ?L = "\<lambda>d. rayLength d maxRow maxCol (row p) (col p)"
  let ?f = "\<lambda>d. rayOf m d (row p) (col p)"
  from doMonsterAttack_spec [OF wf pr pc]
  obtain e m' where run: "doMonsterAttack m maxRow maxCol p = Inr (e, m')"
    and rays: "\<And>d j. 1 \<le> j \<Longrightarrow> j \<le> ?L d \<Longrightarrow>
        rayOf m' d (row p) (col p) j = rayTile (rayOf m d (row p) (col p)) (?L d) 1 j"
    and frame: "\<And>r c. 0 \<le> r \<Longrightarrow> r < maxRow \<Longrightarrow> 0 \<le> c \<Longrightarrow> c < maxCol \<Longrightarrow>
        (\<forall>d j. 0 \<le> j \<and> j \<le> ?L d \<longrightarrow> (r, c) \<noteq> scanned d (row p) (col p) j) \<Longrightarrow>
        tileAt m' r c = tileAt m r c"
    by blast
  have pillars: "tileAt m' r c = TILE_PILLAR"
    if "0 \<le> r" "r < maxRow" "0 \<le> c" "c < maxCol" "(r, c) \<noteq> (row p, col p)"
      "tileAt m r c = TILE_PILLAR" for r c
    using rays frame that by (rule monster_pillars_stay)
  have beyond: "rayOf m' d (row p) (col p) j = ?f d j"
    if k: "1 \<le> k" "k \<le> ?L d" and pil: "?f d k = TILE_PILLAR"
      and j: "k \<le> j" "j \<le> ?L d" for d k j
  proof -
    have "\<not> advances (?f d) (?L d) 1 x" if "k \<le> x" for x
    proof (cases "x = k")
      case True
      then show ?thesis using pil by (simp add: advances_def tile_defs)
    next
      case False
      with that have "k < x" by simp
      with pil k(1) show ?thesis by (rule advances_blocked)
    qed
    then have "rayTile (?f d) (?L d) 1 j = ?f d j"
      using j by (simp add: rayTile_def)
    with rays [of j d] j k show ?thesis by simp
  qed
  have unread: "\<exists>m2'. doMonsterAttack m2 maxRow maxCol p = Inr (e, m2') \<and>
           (\<forall>r c. 0 \<le> r \<and> r < maxRow \<and> 0 \<le> c \<and> c < maxCol \<and>
              (\<forall>j. k < j \<and> j \<le> ?L d \<longrightarrow> (r, c) \<noteq> scanned d (row p) (col p) j) \<longrightarrow>
              tileAt m2' r c = tileAt m' r c)"
    if k: "1 \<le> k" "k \<le> ?L d" and pil: "?f d k = TILE_PILLAR"
      and wf2: "wfGrid m2 maxRow maxCol"
      and same: "\<forall>r c. 0 \<le> r \<and> r < maxRow \<and> 0 \<le> c \<and> c < maxCol \<and>
             (\<forall>j. k < j \<and> j \<le> ?L d \<longrightarrow> (r, c) \<noteq> scanned d (row p) (col p) j) \<longrightarrow>
             tileAt m2 r c = tileAt m r c" for d k m2
    using wf wf2 pr pc k pil _ run
  proof (rule monster_beyond_pillar_unread)
    fix r c
    assume "0 \<le> r" "r < maxRow" "0 \<le> c" "c < maxCol"
      "\<forall>j. k < j \<and> j \<le> ?L d \<longrightarrow> (r, c) \<noteq> scanned d (row p) (col p) j"
    with same show "tileAt m2 r c = tileAt m r c" by blast
  qed
  let ?Q = "\<lambda>d k. (\<forall>j. k \<le> j \<and> j \<le> ?L d \<longrightarrow> rayOf m' d (row p) (col p) j = ?f d j) \<and>
      (\<forall>m2. wfGrid m2 maxRow maxCol \<and>
         (\<forall>r c. 0 \<le> r \<and> r < maxRow \<and> 0 \<le> c \<and> c < maxCol \<and>
            (\<forall>j. k < j \<and> j \<le> ?L d \<longrightarrow> (r, c) \<noteq> scanned d (row p) (col p) j) \<longrightarrow>
            tileAt m2 r c = tileAt m r c) \<longrightarrow>
         (\<exists>m2'. doMonsterAttack m2 maxRow maxCol p = Inr (e, m2') \<and>
            (\<forall>r c. 0 \<le> r \<and> r < maxRow \<and> 0 \<le> c \<and> c < maxCol \<and>
               (\<forall>j. k < j \<and> j \<le> ?L d \<longrightarrow> (r, c) \<noteq> scanned d (row p) (col p) j) \<longrightarrow>
               tileAt m2' r c = tileAt m' r c)))"
  have perRay: "?Q d k" if k: "1 \<le> k" "k \<le> ?L d" and pil: "?f d k = TILE_PILLAR" for d k
  proof (rule conjI)
    show "\<forall>j. k \<le> j \<and> j \<le> ?L d \<longrightarrow> rayOf m' d (row p) (col p) j = ?f d j"
    proof (intro allI impI)
      fix j assume "k \<le> j \<and> j \<le> ?L d"
      then have "k \<le> j" "j \<le> ?L d" by simp_all
      with k pil show "rayOf m' d (row p) (col p) j = ?f d j" by (rule beyond)
    qed
  next
    show "\<forall>m2. wfGrid m2 maxRow maxCol \<and>
         (\<forall>r c. 0 \<le> r \<and> r < maxRow \<and> 0 \<le> c \<and> c < maxCol \<and>
            (\<forall>j. k < j \<and> j \<le> ?L d \<longrightarrow> (r, c) \<noteq> scanned d (row p) (col p) j) \<longrightarrow>
            tileAt m2 r c = tileAt m r c) \<longrightarrow>
         (\<exists>m2'. doMonsterAttack m2 maxRow maxCol p = Inr (e, m2') \<and>
            (\<forall>r c. 0 \<le> r \<and> r < maxRow \<and> 0 \<le> c \<and> c < maxCol \<and>
               (\<forall>j. k < j \<and> j \<le> ?L d \<longrightarrow> (r, c) \<noteq> scanned d (row p) (col p) j) \<longrightarrow>
               tileAt m2' r c = tileAt m' r c))"
    proof (intro allI impI)
      fix m2
      assume a: "wfGrid m2 maxRow maxCol \<and>
         (\<forall>r c. 0 \<le> r \<and> r < maxRow \<and> 0 \<le> c \<and> c < maxCol \<and>
            (\<forall>j. k < j \<and> j \<le> ?L d \<longrightarrow> (r, c) \<noteq> scanned d (row p) (col p) j) \<longrightarrow>
            tileAt m2 r c = tileAt m r c)"
      from a have wf2: "wfGrid m2 maxRow maxCol" by (rule conjunct1)
      from a have same: "\<forall>r c. 0 \<le> r \<and> r < maxRow \<and> 0 \<le> c \<and> c < maxCol \<and>
            (\<forall>j. k < j \<and> j \<le> ?L d \<longrightarrow> (r, c) \<noteq> scanned d (row p) (col p) j) \<longrightarrow>
            tileAt m2 r c = tileAt m r c" by (rule conjunct2)
      from k pil wf2 same
      show "\<exists>m2'. doMonsterAttack m2 maxRow maxCol p = Inr (e, m2') \<and>
            (\<forall>r c. 0 \<le> r \<and> r < maxRow \<and> 0 \<le> c \<and> c < maxCol \<and>
               (\<forall>j. k < j \<and> j \<le> ?L d \<longrightarrow> (r, c) \<noteq> scanned d (row p) (col p) j) \<longrightarrow>
               tileAt m2' r c = tileAt m' r c)"
        by (rule unread)
    qed
  qed
  have A: "\<forall>r c. 0 \<le> r \<and> r < maxRow \<and> 0 \<le> c \<and> c < maxCol \<and>
              (r, c) \<noteq> (row p, col p) \<and> tileAt m r c = TILE_PILLAR \<longrightarrow>
              tileAt m' r c = TILE_PILLAR"
    using pillars by blast
  have B: "\<forall>d k. 1 \<le> k \<and> k \<le> ?L d \<and> ?f d k = TILE_PILLAR \<longrightarrow> ?Q d k"
  proof (intro allI impI)
    fix d k
    assume h: "1 \<le> k \<and> k \<le> ?L d \<and> ?f d k = TILE_PILLAR"
    then have "1 \<le> k" "k \<le> ?L d" "?f d k = TILE_PILLAR" by simp_all
    then show "?Q d k" by (rule perRay)
  qed
  from run A B show ?thesis by (intro exI [of _ e] exI [of _ m'] conjI)
qed

theorem pillar_blocks_ray_witness:
  "\<exists>e m'. doMonsterAttack [''oM+M'', ''-+-M''] 2 4 \<lparr>row = 0, col = 0, treasure = 0\<rparr> =
        Inr (e, m') \<and>
      tileAt m' 0 2 = TILE_PILLAR \<and> tileAt m' 0 3 = TILE_MONSTER \<and> tileAt m' 1 1 = TILE_PILLAR"
proof -
  let ?m = "[''oM+M'', ''-+-M'']" and ?p = "\<lparr>row = 0, col = 0, treasure = 0\<rparr>"
  have wf: "wfGrid ?m 2 4" by (simp add: wfGrid_def)
  from pillar_blocks_ray [OF wf, of ?p]
  obtain e m' where run: "doMonsterAttack ?m 2 4 ?p = Inr (e, m')"
    and pillars: "\<forall>r c. 0 \<le> r \<and> r < 2 \<and> 0 \<le> c \<and> c < 4 \<and>
        (r, c) \<noteq> (row ?p, col ?p) \<and> tileAt ?m r c = TILE_PILLAR \<longrightarrow>
        tileAt m' r c = TILE_PILLAR"
    and perRay: "\<forall>d k. 1 \<le> k \<and> k \<le> rayLength d 2 4 (row ?p) (col ?p) \<and>
        rayOf ?m d (row ?p) (col ?p) k = TILE_PILLAR \<longrightarrow>
        (\<forall>j. k \<le> j \<and> j \<le> rayLength d 2 4 (row ?p) (col ?p) \<longrightarrow>
           rayOf m' d (row ?p) (col ?p) j = rayOf ?m d (row ?p) (col ?p) j)"
    by auto
  have "tileAt ?m 1 1 = TILE_PILLAR" by (simp add: tileAt_def tile_defs)
  with pillars have off: "tileAt m' 1 1 = TILE_PILLAR" by simp
  have "(1::int) \<le> 2 \<and> 2 \<le> rayLength Right 2 4 (row ?p) (col ?p) \<and>
      rayOf ?m Right (row ?p) (col ?p) 2 = TILE_PILLAR"
    by (simp add: rayLength_def rayOf_def tileAt_def tile_defs)
  with perRay
  have beyond: "\<forall>j. 2 \<le> j \<and> j \<le> rayLength Right 2 4 (row ?p) (col ?p) \<longrightarrow>
      rayOf m' Right (row ?p) (col ?p) j = rayOf ?m Right (row ?p) (col ?p) j"
    by blast
  from beyond have "rayOf m' Right (row ?p) (col ?p) 2 = rayOf ?m Right (row ?p) (col ?p) 2"
    and "rayOf m' Right (row ?p) (col ?p) 3 = rayOf ?m Right (row ?p) (col ?p) 3"
    by (simp_all add: rayLength_def)
  then have "tileAt m' 0 2 = TILE_PILLAR" and "tileAt m' 0 3 = TILE_MONSTER"
    by (simp_all add: rayOf_def tileAt_def tile_defs)
  with run off show ?thesis by blast
qed

text \<open>
  Claim C8. Whenever \<^verbatim>\<open>loadLevel\<close> returns a map, the block it returns holds a well-formed
  map of the dimensions read from the header, the player's coordinates are the start row
  and column read from the header, the cell at these coordinates holds \<open>TILE_PLAYER\<close>
  (whatever token the text had there) and no other cell does. The treasure counter of
  the player is untouched.
\<close>

theorem load_places_player:
  assumes ld: "loadLevel h file player0 = Inr (h', Some (a, maxRow, maxCol, p))"
  shows "\<exists>m s0 s1 s2 s3 s4.
           block h' a = Some m \<and> validState m maxRow maxCol p \<and>
           file = Some s0 \<and> readInt s0 = Some (maxRow, s1) \<and> readInt s1 = Some (maxCol, s2) \<and>
           readInt s2 = Some (row p, s3) \<and> readInt s3 = Some (col p, s4) \<and>
           treasure p = treasure player0"
proof -
  from loadLevel_Some [OF ld]
  obtain s0 s1 s2 s3 s4 where "file = Some s0" "readInt s0 = Some (maxRow, s1)"
    "readInt s1 = Some (maxCol, s2)" "readInt s2 = Some (row p, s3)"
    "readInt s3 = Some (col p, s4)" and p: "p = player0\<lparr>row := row p, col := col p\<rparr>"
    by blast
  moreover from p have "treasure p = treasure (player0\<lparr>row := row p, col := col p\<rparr>)"
    by simp
  then have "treasure p = treasure player0" by simp
  moreover from load_valid [OF ld] obtain m where "block h' a = Some m"
    "validState m maxRow maxCol p" by blast
  ultimately show ?thesis by blast
qed

theorem load_places_player_witness:
  "loadLevel [] (Some ''2 3 1 1 -M+$X!'') \<lparr>row = 5, col = 5, treasure = 7\<rparr> =
     Inr ([Some [''-M+'', ''$o!'']], Some (0, 2, 3, \<lparr>row = 1, col = 1, treasure = 7\<rparr>)) \<and>
   validState [''-M+'', ''$o!''] 2 3 \<lparr>row = 1, col = 1, treasure = 7\<rparr>"
proof -
  have ld: "loadLevel [] (Some ''2 3 1 1 -M+$X!'') \<lparr>row = 5, col = 5, treasure = 7\<rparr> =
     Inr ([Some [''-M+'', ''$o!'']], Some (0, 2, 3, \<lparr>row = 1, col = 1, treasure = 7\<rparr>))"
    by (simp add: tile_defs load_eval)
  from load_places_player [OF ld]
  have "validState [''-M+'', ''$o!''] 2 3 \<lparr>row = 1, col = 1, treasure = 7\<rparr>"
    by (simp add: block_def)
  with ld show ?thesis by blast
qed

text \<open>
  Claim C9. For a valid map and player, a move whose target is the player's own cell (the
  cell that holds the player tile) returns \<open>STATUS_STAY\<close> and leaves the map and the
  player as they were: no test of \<^verbatim>\<open>doPlayerMove\<close> matches the player tile, and the final
  \<^verbatim>\<open>return 0\<close> is \<open>STATUS_STAY\<close>.
\<close>

theorem move_onto_own_cell:
  assumes "validState m maxRow maxCol player"
  shows "doPlayerMove m maxRow maxCol player (row player) (col player) =
           Inr (STATUS_STAY, m, player)"
  using assms
  by (auto simp: doPlayerMove_def Let_def validState_def readTile_wf STATUS_STAY_def tile_defs)

theorem move_onto_own_cell_witness:
  "doPlayerMove [''-+-'', ''Mo!'', ''-M-''] 3 3 \<lparr>row = 1, col = 1, treasure = 3\<rparr> 1 1 =
     Inr (STATUS_STAY, [''-+-'', ''Mo!'', ''-M-''], \<lparr>row = 1, col = 1, treasure = 3\<rparr>)"
proof -
  have "validState [''-+-'', ''Mo!'', ''-M-''] 3 3 \<lparr>row = 1, col = 1, treasure = 3\<rparr>"
    by (simp add: validState_def wfGrid_def tileAt_def playerCount_def tile_defs)
  from move_onto_own_cell [OF this] show ?thesis by simp
qed
text \<open>
  Claim C10 says that whenever the doubled dimensions fail the overflow test, \<^verbatim>\<open>resizeMap\<close>
  returns \<^verbatim>\<open>nullptr\<close>, releases its input and leaves the doubled values in the reference
  parameters. The doubling \<^verbatim>\<open>maxRow *= 2; maxCol *= 2;\<close> of lines 205 and 206 comes before the
  test of line 208: for a map of one row and \<open>2 ^ 30\<close> columns the product of the doubled
  dimensions is greater than \<^verbatim>\<open>INT32_MAX\<close>, but the doubled number of columns, \<open>2 ^ 31\<close>, is
  no value of an \<^verbatim>\<open>int\<close>: the multiplication overflows and the test is not reached.
\<close>

theorem doubling_before_guard_counterexample:
  "wfGrid [replicate 1073741824 TILE_OPEN] 1 1073741824 \<and>
   block [Some [replicate 1073741824 TILE_OPEN]] 0 = Some [replicate 1073741824 TILE_OPEN] \<and>
   INT32_MAX < ((1::int) * 2) * (1073741824 * 2) \<and>
   resizeMap [Some [replicate 1073741824 TILE_OPEN]] (Some 0) 1 1073741824 = Inl SignedOverflow"
  by (simp add: wfGrid_def block_def resizeMap_def int32_def INT32_MAX_def INT32_MIN_def)

text \<open>
  Claim C10, amended. When each doubled dimension is a 32-bit value and the doubled
  dimensions fail the overflow test of \<^verbatim>\<open>resizeMap\<close> (their product is greater than
  \<^verbatim>\<open>INT32_MAX\<close>), the call returns \<^verbatim>\<open>nullptr\<close>, releases the map it was given, and leaves the
  doubled values, not the original ones, in the reference parameters \<^verbatim>\<open>maxRow\<close> and
  \<^verbatim>\<open>maxCol\<close>.
\<close>

theorem resize_overflow:
  assumes blk: "block h a = Some m"
    and wf: "wfGrid m maxRow maxCol" and pos: "0 < maxRow" "0 < maxCol"
    and i32: "int32 (maxRow * 2)" "int32 (maxCol * 2)"
    and over: "INT32_MAX < (maxRow * 2) * (maxCol * 2)"
  shows "resizeMap h (Some a) maxRow maxCol = Inr (h[a := None], None, maxRow * 2, maxCol * 2) \<and>
         block (h[a := None]) a = None"
proof -
  have chk: "INT32_MAX div (maxCol * 2) < maxRow * 2"
    using pos over by (simp add: div_less_iff_less_mult)
  have len: "\<not> maxRow > int (length m)" using wf by (simp add: wfGrid_def)
  have del: "deleteMap h (Some a) maxRow = Inr (h[a := None], None, 0)"
    using blk len by (simp add: deleteMap_def)
  have "resizeMap h (Some a) maxRow maxCol = Inr (h[a := None], None, maxRow * 2, maxCol * 2)"
    using pos i32 chk del by (simp add: resizeMap_def Let_def)
  moreover have "block (h[a := None]) a = None"
    by (simp add: block_def)
  ultimately show ?thesis by simp
qed

theorem resize_overflow_witness:
  "resizeMap [Some (replicate 32768 (replicate 32768 TILE_OPEN))] (Some 0) 32768 32768 =
     Inr ([None], None, 65536, 65536)"
proof -
  let ?m = "replicate 32768 (replicate 32768 TILE_OPEN)"
  have blk: "block [Some ?m] 0 = Some ?m" by (simp add: block_def)
  have wf: "wfGrid ?m 32768 32768" by (simp add: wfGrid_def list_all_length)
  have i32: "int32 (32768 * 2)" by (simp add: int32_def INT32_MIN_def INT32_MAX_def)
  have over: "INT32_MAX < ((32768::int) * 2) * (32768 * 2)" by (simp add: INT32_MAX_def)
  from resize_overflow [OF blk wf _ _ i32 i32 over] show ?thesis by simp
qed

end
